theory Spec2Isabelle
  imports Main "HOL-Library.Word" "HOL-Library.Multiset"
begin

unbundle bit_operations_syntax

section \<open>Constants and data (fdc-sim-gui.h)\<close>

type_synonym byte = "8 word"

definition MAX_DRIVE :: nat where "MAX_DRIVE = 4"
definition CMDBUF_SIZE :: int where "CMDBUF_SIZE = 10"
definition COMMAND_LENGTH :: int where "COMMAND_LENGTH = 8"
definition TRACK_MAX_5 :: byte where "TRACK_MAX_5 = 35"
definition TRACK_MAX_8 :: byte where "TRACK_MAX_8 = 77"
definition TRACK_LEN_5 :: int where "TRACK_LEN_5 = 137 * 16"
definition TRACK_LEN_8 :: int where "TRACK_LEN_8 = 137 * 32"
definition TRACKBUF_LEN :: int where "TRACKBUF_LEN = TRACK_LEN_8"
definition TRACKBUF_LEN_CRC :: int where "TRACKBUF_LEN_CRC = TRACKBUF_LEN + 2"
definition STAT_OK :: "16 word" where "STAT_OK = 0x0000"
definition STAT_NOT_READY :: "16 word" where "STAT_NOT_READY = 0x0001"
definition STAT_CHECKSUM_ERR :: "16 word" where "STAT_CHECKSUM_ERR = 0x0002"
definition STAT_WRITE_ERR :: "16 word" where "STAT_WRITE_ERR = 0x0003"

subsection \<open>The command buffer \<open>tcommand_t\<close>\<close>

text \<open>
  \<open>tcommand_t\<close> is a union of \<open>asBytes[CMDBUF_SIZE]\<close> with the fields \<open>command[4]\<close>,
  \<open>param1\<close>/\<open>rcode\<close>, \<open>param2\<close>/\<open>rdata\<close> and \<open>checksum\<close>. The model keeps the ten bytes
  and reads or writes the fields through them, 16-bit fields little endian (the byte order
  of the wire format and of the hosts the program is built for).
\<close>

definition word16_at :: "byte list \<Rightarrow> nat \<Rightarrow> 16 word" where
  "word16_at buf k = ucast (buf ! k) OR push_bit 8 (ucast (buf ! (k + 1)))"

definition put_word16 :: "byte list \<Rightarrow> nat \<Rightarrow> 16 word \<Rightarrow> byte list" where
  "put_word16 buf k v = buf[k := ucast v, k + 1 := ucast (drop_bit 8 v)]"

definition command :: "byte list \<Rightarrow> byte list" where
  "command buf = take 4 buf"

definition set_command :: "byte list \<Rightarrow> byte list \<Rightarrow> byte list" where
  "set_command buf tag = buf[0 := tag ! 0, 1 := tag ! 1, 2 := tag ! 2, 3 := tag ! 3]"

definition param1 :: "byte list \<Rightarrow> 16 word" where "param1 buf = word16_at buf 4"
definition rcode :: "byte list \<Rightarrow> 16 word" where "rcode buf = word16_at buf 4"
definition param2 :: "byte list \<Rightarrow> 16 word" where "param2 buf = word16_at buf 6"
definition rdata :: "byte list \<Rightarrow> 16 word" where "rdata buf = word16_at buf 6"
definition checksum_field :: "byte list \<Rightarrow> 16 word" where "checksum_field buf = word16_at buf 8"

definition set_param1 :: "byte list \<Rightarrow> 16 word \<Rightarrow> byte list" where
  "set_param1 buf v = put_word16 buf 4 v"
definition set_param2 :: "byte list \<Rightarrow> 16 word \<Rightarrow> byte list" where
  "set_param2 buf v = put_word16 buf 6 v"
definition set_checksum :: "byte list \<Rightarrow> 16 word \<Rightarrow> byte list" where
  "set_checksum buf v = put_word16 buf 8 v"

text \<open>The four ASCII tags.\<close>

definition tag_STAT :: "byte list" where "tag_STAT = [0x53, 0x54, 0x41, 0x54]"
definition tag_READ :: "byte list" where "tag_READ = [0x52, 0x45, 0x41, 0x44]"
definition tag_WRIT :: "byte list" where "tag_WRIT = [0x57, 0x52, 0x49, 0x54]"
definition tag_WSTA :: "byte list" where "tag_WSTA = [0x57, 0x53, 0x54, 0x41]"

section \<open>\<open>FDCDialog::calcChecksum\<close>\<close>

text \<open>
  \<^verbatim>\<open>checksum = 0; for (i = 0; i < length; i++) checksum += data[i]; return checksum;\<close>
  with \<open>checksum\<close> a \<open>quint16\<close> and \<open>data[i]\<close> a \<open>quint8\<close>: the byte is widened without
  sign and the sum is cut to 16 bits at every step.
\<close>

function calcChecksum_loop :: "byte list \<Rightarrow> int \<Rightarrow> int \<Rightarrow> 16 word \<Rightarrow> 16 word" where
  "calcChecksum_loop data len i checksum =
     (if i < len then calcChecksum_loop data len (i + 1) (checksum + ucast (data ! nat i))
      else checksum)"
  by pat_completeness auto
termination
  by (relation "measure (\<lambda>(d, len, i, c). nat (len - i))") auto

definition calcChecksum :: "byte list \<Rightarrow> int \<Rightarrow> 16 word" where
  "calcChecksum data len = calcChecksum_loop data len 0 0"

section \<open>The serial port (external collaborator)\<close>

text \<open>
  \<open>QSerialPort\<close> is not part of the repository. The model keeps what the protocol code
  observes of it: whether it is open, the bytes written to it, and what the peer does
  during each successive \<open>waitForReadyRead\<close>: nothing until the timeout, a chunk of bytes
  that arrives, or an I/O error. A script that has run out means that the peer has stopped
  transmitting: every later wait times out. After an I/O error the port stays failed: no
  wait reports data any more and every read returns -1.
\<close>

datatype rx_event = Timeout | Chunk "byte list" | IOError

record serial_port =
  isOpen :: bool
  pending :: "rx_event list"
  inbuf :: "byte list"
  failed :: bool
  sent :: "byte list list"

text \<open>
  \<open>waitForReadyRead(msecs)\<close>: true when new data has arrived, false on a timeout or an
  error.
\<close>

definition waitForReadyRead :: "serial_port \<Rightarrow> bool \<times> serial_port" where
  "waitForReadyRead p =
     (case pending p of
        [] \<Rightarrow> (False, p)
      | Timeout # es \<Rightarrow> (False, p\<lparr>pending := es\<rparr>)
      | Chunk bs # es \<Rightarrow>
          if failed p then (False, p\<lparr>pending := es\<rparr>)
          else (True, p\<lparr>pending := es, inbuf := inbuf p @ bs\<rparr>)
      | IOError # es \<Rightarrow> (False, p\<lparr>pending := es, failed := True\<rparr>))"

text \<open>
  \<open>read(data, maxSize)\<close>: at most \<open>maxSize\<close> of the bytes that have arrived, with their
  count; 0 when there are none; -1 on an error. The bytes not taken stay in the port for
  the next read. (Both loops ask for the room left in their buffer, which is never
  negative as long as the index has not passed the end of the buffer.)
\<close>

definition port_read :: "serial_port \<Rightarrow> int \<Rightarrow> int \<times> byte list \<times> serial_port" where
  "port_read p maxSize =
     (if failed p then (- 1, [], p)
      else (int (length (take (nat maxSize) (inbuf p))),
            take (nat maxSize) (inbuf p),
            p\<lparr>inbuf := drop (nat maxSize) (inbuf p)\<rparr>))"

definition port_write :: "serial_port \<Rightarrow> byte list \<Rightarrow> serial_port" where
  "port_write p bs = p\<lparr>sent := sent p @ [bs]\<rparr>"

section \<open>The dialog's state (class \<open>FDCDialog\<close>)\<close>

text \<open>
  The texts the code shows: one constructor for each format string set on
  \<open>messageLabel\<close>, with the values it interpolates, and one for each
  \<open>QMessageBox::critical\<close>.
\<close>

datatype rcode_text = OK | NOT_READY | CHECKSUM_ERROR | WRITE_ERROR | UNKNOWN

datatype message =
    NoMessage
  | ReadError
  | StatTagMismatch "byte list"
  | StatReceived "16 word"
  | TrackReceived "16 word"
  | TrackPartial int int
  | WritTagMismatch "byte list"
  | WritRefused rcode_text
  | WstaTagMismatch "byte list"
  | WstaReceived rcode_text

datatype alert = SerialPortNotOpen | InvalidDriveNumber

record fdc =
  driveNum :: byte
  trackNum :: "16 word"
  cmdBuf :: "byte list"
  headStatus :: "byte list"
  trackBuf :: "byte list"
  trkBufIdx :: int
  cmdBufIdx :: int
  trackMax :: byte
  trackLen :: "16 word"
  statAutoCheck :: bool
  messageLabel :: message
  alerts :: "alert list"
  serialPort :: serial_port

text \<open>
  \<open>trkBufIdx\<close> and \<open>cmdBufIdx\<close> are \<open>qint16\<close>: the sum with the \<open>qint64\<close> that \<open>read\<close>
  returns is cut to 16 bits and read as two's complement.
\<close>

definition to_qint16 :: "int \<Rightarrow> int" where
  "to_qint16 x = sint (word_of_int x :: 16 word)"

text \<open>
  \<open>read\<close> stores the bytes it returns from \<open>&buf[idx]\<close> on. A store that goes past the
  end of the list makes the list longer: a write outside the array shows as a changed
  length. A failed read stores nothing, and both loops are left once the index is -1, so
  nothing is ever stored at a negative index.
\<close>

definition store_at :: "byte list \<Rightarrow> int \<Rightarrow> byte list \<Rightarrow> byte list" where
  "store_at buf idx bs = take (nat idx) buf @ bs @ drop (nat idx + length bs) buf"

text \<open>
  The constructor's assignments to the protocol state. The two buffers are not
  initialised by the constructor; the model starts them zeroed.
\<close>

definition FDCDialog :: "serial_port \<Rightarrow> fdc" where
  "FDCDialog p =
     \<lparr>driveNum = 0xff, trackNum = 0, cmdBuf = replicate 10 0,
      headStatus = replicate MAX_DRIVE 0, trackBuf = replicate (nat TRACKBUF_LEN_CRC) 0,
      trkBufIdx = 0, cmdBufIdx = 0, trackMax = TRACK_MAX_8,
      trackLen = word_of_int TRACK_LEN_8, statAutoCheck = False,
      messageLabel = NoMessage, alerts = [], serialPort = p\<rparr>"

text \<open>
  \<open>diskSlot\<close>: the combo box holds \<open>TRACK_LEN_8\<close> at index 0 and \<open>TRACK_LEN_5\<close> at
  index 1; any other index has no item data, which \<open>toInt\<close> reads as 0.
\<close>

definition diskBox_itemData :: "int \<Rightarrow> int" where
  "diskBox_itemData index =
     (if index = 0 then TRACK_LEN_8 else if index = 1 then TRACK_LEN_5 else 0)"

definition diskSlot :: "int \<Rightarrow> fdc \<Rightarrow> fdc" where
  "diskSlot index s =
     (let s1 = s\<lparr>trackLen := word_of_int (diskBox_itemData index)\<rparr>
      in if uint (trackLen s1) = TRACK_LEN_8 then s1\<lparr>trackMax := TRACK_MAX_8\<rparr>
         else s1\<lparr>trackMax := TRACK_MAX_5\<rparr>)"



section \<open>The wait for a ten-byte response\<close>

text \<open>
  The same loop stands three times in the source (after the STAT request, after the WRIT
  request and after the track data):
  \<^verbatim>\<open>
  cmdBufIdx = 0;
  do {
      bytesAvail = serialPort->waitForReadyRead(500);
      cmdBufIdx += serialPort->read((char *) &cmdBuf.asBytes[cmdBufIdx], CMDBUF_SIZE-cmdBufIdx);
  } while (cmdBufIdx < CMDBUF_SIZE && cmdBufIdx != -1);
  \<close>
  \<open>cmdRead\<close> is its body. The loop has no bound of its own, so \<open>cmdWait\<close> takes fuel:
  \<open>None\<close> means that the loop is still running after that many rounds.
\<close>

definition cmdRead :: "fdc \<Rightarrow> fdc" where
  "cmdRead s =
     (let (bytesAvail, p1) = waitForReadyRead (serialPort s);
          (n, bs, p2) = port_read p1 (CMDBUF_SIZE - cmdBufIdx s)
      in s\<lparr>serialPort := p2,
            cmdBuf := store_at (cmdBuf s) (cmdBufIdx s) bs,
            cmdBufIdx := to_qint16 (cmdBufIdx s + n)\<rparr>)"

fun cmdWait :: "nat \<Rightarrow> fdc \<Rightarrow> fdc option" where
  "cmdWait 0 s = None"
| "cmdWait (Suc fuel) s =
     (let s' = cmdRead s
      in if cmdBufIdx s' < CMDBUF_SIZE \<and> cmdBufIdx s' \<noteq> - 1 then cmdWait fuel s'
         else Some s')"

section \<open>\<open>FDCDialog::statCmd\<close>\<close>

text \<open>
  \<^verbatim>\<open>
  cmdBuf.param1 = driveNum;       // MSB head load, LSB drive number
  for (d = 0; d < MAX_DRIVE; d++) {
      cmdBuf.param1 |= (headStatus[d] != 0)  << d;
  }
  \<close>
\<close>

definition statParam1 :: "fdc \<Rightarrow> 16 word" where
  "statParam1 s =
     fold (\<lambda>d p1. p1 OR push_bit d (if headStatus s ! d \<noteq> 0 then 1 else 0))
          [0..<MAX_DRIVE] (ucast (driveNum s))"

definition statRequest :: "fdc \<Rightarrow> fdc" where
  "statRequest s =
     (let b0 = set_command (cmdBuf s) tag_STAT;
          b1 = set_param1 b0 (statParam1 s);
          b2 = set_param2 b1 0;
          b3 = set_checksum b2 (calcChecksum b2 COMMAND_LENGTH)
      in s\<lparr>cmdBuf := b3,
            serialPort := port_write (serialPort s) (take (nat CMDBUF_SIZE) b3),
            cmdBufIdx := 0\<rparr>)"

text \<open>
  The tag test is \<open>QString(cmdBuf.command).left(4) != QString("STAT")\<close>; the model
  compares the four tag bytes, and keeps them as the text the message echoes.
\<close>

definition statResponse :: "fdc \<Rightarrow> fdc" where
  "statResponse s =
     (if cmdBufIdx s = - 1 then s\<lparr>messageLabel := ReadError\<rparr>
      else if command (cmdBuf s) \<noteq> tag_STAT
        then s\<lparr>messageLabel := StatTagMismatch (command (cmdBuf s))\<rparr>
      else if statAutoCheck s = False
        then s\<lparr>messageLabel := StatReceived (rdata (cmdBuf s))\<rparr>
      else s)"

definition statCmd :: "nat \<Rightarrow> fdc \<Rightarrow> fdc option" where
  "statCmd fuel s =
     (if \<not> isOpen (serialPort s) then Some (s\<lparr>alerts := alerts s @ [SerialPortNotOpen]\<rparr>)
      else map_option statResponse (cmdWait fuel (statRequest s)))"

section \<open>\<open>FDCDialog::readCmd\<close>\<close>

text \<open>
  \<open>trackNum | (driveNum << 12)\<close> is computed in \<open>int\<close> and cut to the 16 bits of
  \<open>param1\<close>.
\<close>

definition trackParam1 :: "fdc \<Rightarrow> 16 word" where
  "trackParam1 s =
     ucast ((ucast (trackNum s) :: 32 word) OR push_bit 12 (ucast (driveNum s) :: 32 word))"

definition driveInvalid :: "fdc \<Rightarrow> bool" where
  "driveInvalid s \<longleftrightarrow> uint (driveNum s) < 0 \<or> uint (driveNum s) \<ge> int MAX_DRIVE"

definition trackRequest :: "byte list \<Rightarrow> fdc \<Rightarrow> fdc" where
  "trackRequest tag s =
     (let b0 = set_command (cmdBuf s) tag;
          b1 = set_param1 b0 (trackParam1 s);
          b2 = set_param2 b1 (trackLen s);
          b3 = set_checksum b2 (calcChecksum b2 COMMAND_LENGTH)
      in s\<lparr>cmdBuf := b3,
            serialPort := port_write (serialPort s) (take (nat CMDBUF_SIZE) b3)\<rparr>)"

text \<open>
  The bulk receive loop:
  \<^verbatim>\<open>
  do {
      bytesAvail = serialPort->waitForReadyRead(100);
      trkBufIdx += serialPort->read((char *) &trackBuf[trkBufIdx], TRACKBUF_LEN_CRC-trkBufIdx);
  } while (trkBufIdx < trackLen + 2 && bytesAvail);
  \<close>
  \<open>readStep\<close> is its body, with the value of \<open>bytesAvail\<close>.
\<close>

definition readStep :: "fdc \<Rightarrow> bool \<times> fdc" where
  "readStep s =
     (let (bytesAvail, p1) = waitForReadyRead (serialPort s);
          (n, bs, p2) = port_read p1 (TRACKBUF_LEN_CRC - trkBufIdx s)
      in (bytesAvail,
          s\<lparr>serialPort := p2,
            trackBuf := store_at (trackBuf s) (trkBufIdx s) bs,
            trkBufIdx := to_qint16 (trkBufIdx s + n)\<rparr>))"

function readLoop :: "fdc \<Rightarrow> fdc" where
  "readLoop s =
     (if trkBufIdx (snd (readStep s)) < uint (trackLen (snd (readStep s))) + 2
         \<and> fst (readStep s)
      then readLoop (snd (readStep s))
      else snd (readStep s))"
  by pat_completeness auto
termination
proof (relation "measure (\<lambda>s. length (pending (serialPort s)))")
  show "wf (measure (\<lambda>s. length (pending (serialPort s))))" by simp
next
  fix s :: fdc
  assume "trkBufIdx (snd (readStep s)) < uint (trackLen (snd (readStep s))) + 2
            \<and> fst (readStep s)"
  then have "fst (readStep s)" by simp
  then show "(snd (readStep s), s) \<in> measure (\<lambda>s. length (pending (serialPort s)))"
    by (auto simp: readStep_def waitForReadyRead_def port_read_def Let_def
             split: list.splits rx_event.splits if_splits)
qed

text \<open>
  After a complete reception the source computes
  \<open>checksum = calcChecksum(trackBuf, TRACKBUF_LEN)\<close> and \<open>p = (quint16 *) &trackBuf[trackLen]\<close>
  into two locals and then sets the message; the locals are bound here as the source
  binds them.
\<close>

definition readCmd :: "fdc \<Rightarrow> fdc" where
  "readCmd s =
     (if \<not> isOpen (serialPort s) then s\<lparr>alerts := alerts s @ [SerialPortNotOpen]\<rparr>
      else if driveInvalid s then s\<lparr>alerts := alerts s @ [InvalidDriveNumber]\<rparr>
      else
        let s1 = trackRequest tag_READ s;
            s2 = readLoop (s1\<lparr>trkBufIdx := 0\<rparr>)
        in if trkBufIdx s2 = uint (trackLen s2) + 2 then
             (let checksum = calcChecksum (trackBuf s2) TRACKBUF_LEN;
                  p = word16_at (trackBuf s2) (unat (trackLen s2))
              in s2\<lparr>messageLabel := TrackReceived (trackLen s2)\<rparr>)
           else if trkBufIdx s2 = - 1 then s2\<lparr>messageLabel := ReadError\<rparr>
           else s2\<lparr>messageLabel := TrackPartial (trkBufIdx s2) (uint (trackLen s2) + 2)\<rparr>)"

section \<open>\<open>FDCDialog::writCmd\<close>\<close>

text \<open>The \<open>switch\<close> on a refused WRIT has no case for \<open>STAT_OK\<close>; the one on WSTA has.\<close>

definition writRcodeText :: "16 word \<Rightarrow> rcode_text" where
  "writRcodeText c =
     (if c = STAT_NOT_READY then NOT_READY
      else if c = STAT_CHECKSUM_ERR then CHECKSUM_ERROR
      else if c = STAT_WRITE_ERR then WRITE_ERROR
      else UNKNOWN)"

definition wstaRcodeText :: "16 word \<Rightarrow> rcode_text" where
  "wstaRcodeText c =
     (if c = STAT_OK then OK
      else if c = STAT_NOT_READY then NOT_READY
      else if c = STAT_CHECKSUM_ERR then CHECKSUM_ERROR
      else if c = STAT_WRITE_ERR then WRITE_ERROR
      else UNKNOWN)"

text \<open>
  \<^verbatim>\<open>
  checksum = calcChecksum(trackBuf, trackLen);
  trackBuf[trackLen] = checksum & 0x00ff;
  trackBuf[trackLen+1] = (checksum >> 8) & 0x00ff;
  serialPort->write((char *) trackBuf, trackLen + 2);
  \<close>
  With the two geometries \<open>trackLen + 2\<close> is at most the size of \<open>trackBuf\<close>. (For a track
  length beyond the buffer the C++ would write outside the array; the list update of the
  model does nothing there.)
\<close>

definition writData :: "fdc \<Rightarrow> fdc" where
  "writData s =
     (let checksum = calcChecksum (trackBuf s) (uint (trackLen s));
          tb = (trackBuf s)[unat (trackLen s) := ucast (checksum AND 0x00ff),
                            unat (trackLen s) + 1 := ucast (drop_bit 8 checksum AND 0x00ff)]
      in s\<lparr>trackBuf := tb,
            serialPort := port_write (serialPort s) (take (unat (trackLen s) + 2) tb)\<rparr>)"

definition wstaResponse :: "fdc \<Rightarrow> fdc" where
  "wstaResponse s =
     (if cmdBufIdx s = - 1 then s\<lparr>messageLabel := ReadError\<rparr>
      else if command (cmdBuf s) \<noteq> tag_WSTA
        then s\<lparr>messageLabel := WstaTagMismatch (command (cmdBuf s))\<rparr>
      else s\<lparr>messageLabel := WstaReceived (wstaRcodeText (rcode (cmdBuf s)))\<rparr>)"

text \<open>What \<open>writCmd\<close> does once the wait for the WRIT response has ended.\<close>

definition writResponse :: "nat \<Rightarrow> fdc \<Rightarrow> fdc option" where
  "writResponse fuel s =
     (if cmdBufIdx s = - 1 then Some (s\<lparr>messageLabel := ReadError\<rparr>)
      else if command (cmdBuf s) \<noteq> tag_WRIT
        then Some (s\<lparr>messageLabel := WritTagMismatch (command (cmdBuf s))\<rparr>)
      else if rcode (cmdBuf s) = STAT_OK
        then map_option wstaResponse (cmdWait fuel ((writData s)\<lparr>cmdBufIdx := 0\<rparr>))
      else Some (s\<lparr>messageLabel := WritRefused (writRcodeText (rcode (cmdBuf s)))\<rparr>))"

definition writCmd :: "nat \<Rightarrow> fdc \<Rightarrow> fdc option" where
  "writCmd fuel s =
     (if \<not> isOpen (serialPort s) then Some (s\<lparr>alerts := alerts s @ [SerialPortNotOpen]\<rparr>)
      else if driveInvalid s then Some (s\<lparr>alerts := alerts s @ [InvalidDriveNumber]\<rparr>)
      else
        case cmdWait fuel ((trackRequest tag_WRIT s)\<lparr>cmdBufIdx := 0\<rparr>) of
          None \<Rightarrow> None
        | Some s1 \<Rightarrow> writResponse fuel s1)"

section \<open>The Drive/Track State of the specification\<close>

text \<open>
  The specification's Drive/Track State: the selected drive, the head-load flags, the
  current track number and the geometry (track length and number of tracks).
\<close>

definition driveTrackState :: "fdc \<Rightarrow> byte \<times> byte list \<times> 16 word \<times> 16 word \<times> byte" where
  "driveTrackState s = (driveNum s, headStatus s, trackNum s, trackLen s, trackMax s)"

section \<open>Proof set-up\<close>

lemmas fdc_consts =
  MAX_DRIVE_def CMDBUF_SIZE_def COMMAND_LENGTH_def TRACK_MAX_5_def TRACK_MAX_8_def
  TRACK_LEN_5_def TRACK_LEN_8_def TRACKBUF_LEN_def TRACKBUF_LEN_CRC_def
  STAT_OK_def STAT_NOT_READY_def STAT_CHECKSUM_ERR_def STAT_WRITE_ERR_def

lemmas tag_defs = tag_STAT_def tag_READ_def tag_WRIT_def tag_WSTA_def

lemmas field_defs =
  command_def set_command_def param1_def rcode_def param2_def rdata_def checksum_field_def
  set_param1_def set_param2_def set_checksum_def word16_at_def put_word16_def

declare calcChecksum_loop.simps [simp del]
declare readLoop.simps [simp del]

section \<open>Properties of the checksum\<close>

lemma calcChecksum_loop_sum:
  "0 \<le> i \<Longrightarrow> len \<le> int (length data) \<Longrightarrow>
   calcChecksum_loop data len i c = c + sum_list (map ucast (drop (nat i) (take (nat len) data)))"
proof (induction data len i c rule: calcChecksum_loop.induct)
  case (1 data len i c)
  show ?case
  proof (cases "i < len")
    case True
    with 1 have lt: "nat i < length (take (nat len) data)" by simp
    have "drop (nat i) (take (nat len) data)
            = (data ! nat i) # drop (nat (i + 1)) (take (nat len) data)"
      using Cons_nth_drop_Suc [OF lt, symmetric] True 1(2) by (simp add: nat_add_distrib)
    with 1 True show ?thesis
      by (subst calcChecksum_loop.simps) (simp add: add.assoc)
  next
    case False
    then show ?thesis
      by (subst calcChecksum_loop.simps) simp
  qed
qed

lemma calcChecksum_sum_list:
  "len \<le> int (length data) \<Longrightarrow> calcChecksum data len = sum_list (map ucast (take (nat len) data))"
  by (simp add: calcChecksum_def calcChecksum_loop_sum)

lemma unat_ucast_byte: "unat (ucast (b :: byte) :: 16 word) = unat b"
proof -
  have "unat b < 2 ^ 8" using unsigned_less [of b] by simp
  then have "unat b < 2 ^ 16" by simp
  then show ?thesis by (simp add: unsigned_ucast_eq take_bit_nat_eq_self)
qed

lemma unat_sum_list_ucast:
  "unat (sum_list (map ucast (bs :: byte list)) :: 16 word) = sum_list (map unat bs) mod 65536"
proof (induction bs)
  case Nil
  show ?case by simp
next
  case (Cons b bs)
  then show ?case
    by (simp add: unat_word_ariths unat_ucast_byte mod_add_right_eq)
qed

lemma sum_list_ucast_mset:
  "mset xs = mset ys \<Longrightarrow>
   (sum_list (map ucast (xs :: byte list)) :: 16 word) = sum_list (map ucast ys)"
proof -
  assume "mset xs = mset ys"
  then have "mset (map ucast xs :: 16 word list) = mset (map ucast ys)"
    by (metis mset_map)
  then show ?thesis
    by (metis sum_mset_sum_list)
qed

text \<open>
  C8. For every byte sequence and every length within it, \<open>calcChecksum\<close> is the sum of
  the bytes \<open>data[0..len)\<close> modulo 65536, each byte counted unsigned; two byte ranges that
  are permutations of each other have the same checksum. The function is one definition,
  applied alike to the eight header bytes of a frame and to a track of data, and it
  computes a value from its arguments only.
\<close>

theorem calcChecksum_is_sum_mod_65536:
  "(len \<le> int (length data) \<longrightarrow>
      unat (calcChecksum data len) = sum_list (map unat (take (nat len) data)) mod 65536) \<and>
   (len \<le> int (length data) \<and> len' \<le> int (length data') \<and>
    mset (take (nat len) data) = mset (take (nat len') data') \<longrightarrow>
      calcChecksum data len = calcChecksum data' len')"
proof (intro conjI impI)
  assume "len \<le> int (length data)"
  then show "unat (calcChecksum data len) = sum_list (map unat (take (nat len) data)) mod 65536"
    by (simp add: calcChecksum_sum_list unat_sum_list_ucast)
next
  assume h: "len \<le> int (length data) \<and> len' \<le> int (length data') \<and>
             mset (take (nat len) data) = mset (take (nat len') data')"
  then have "(sum_list (map ucast (take (nat len) data)) :: 16 word)
               = sum_list (map ucast (take (nat len') data'))"
    by (intro sum_list_ucast_mset) simp
  with h show "calcChecksum data len = calcChecksum data' len'"
    by (simp add: calcChecksum_sum_list)
qed

theorem calcChecksum_is_sum_mod_65536_witness:
  "unat (calcChecksum (replicate 300 0xFF) 300) = (300 * 255) mod 65536 \<and>
   calcChecksum [0x53, 0x54, 0x41, 0x54, 0, 0, 5, 0, 9] 8
     = calcChecksum [0, 5, 0x54, 0x54, 0, 0x41, 0, 0x53] 8"
proof -
  have a: "(300 :: int) \<le> int (length (replicate 300 (0xFF :: byte)))" by simp
  have b: "(8 :: int) \<le> int (length [0x53, 0x54, 0x41, 0x54, 0, 0, 5, 0, 9 :: byte]) \<and>
           (8 :: int) \<le> int (length [0, 5, 0x54, 0x54, 0, 0x41, 0, 0x53 :: byte]) \<and>
           mset (take (nat 8) [0x53, 0x54, 0x41, 0x54, 0, 0, 5, 0, 9 :: byte])
             = mset (take (nat 8) [0, 5, 0x54, 0x54, 0, 0x41, 0, 0x53 :: byte])"
    by (simp add: add_mset_commute)
  from calcChecksum_is_sum_mod_65536
         [of 300 "replicate 300 0xFF" 8 "[0x53, 0x54, 0x41, 0x54, 0, 0, 5, 0, 9]",
          THEN conjunct1, rule_format, OF a]
  have c: "unat (calcChecksum (replicate 300 0xFF) 300) = (300 * 255) mod 65536"
    by (simp add: sum_list_replicate)
  from calcChecksum_is_sum_mod_65536
         [of 8 "[0x53, 0x54, 0x41, 0x54, 0, 0, 5, 0, 9]" 8 "[0, 5, 0x54, 0x54, 0, 0x41, 0, 0x53]",
          THEN conjunct2, rule_format, OF b]
  have d: "calcChecksum [0x53, 0x54, 0x41, 0x54, 0, 0, 5, 0, 9] 8
             = calcChecksum [0, 5, 0x54, 0x54, 0, 0x41, 0, 0x53] 8" .
  from c d show ?thesis by simp
qed


section \<open>Lemmas about the buffers and the port\<close>

lemma to_qint16_id: "- 32768 \<le> x \<Longrightarrow> x < 32768 \<Longrightarrow> to_qint16 x = x"
  by (simp add: to_qint16_def sint_sbintrunc' signed_take_bit_int_eq_self)

lemma store_at_Nil: "store_at buf idx [] = buf"
  by (simp add: store_at_def)

lemma word16_bytes:
  "ucast (ucast v :: byte) OR push_bit 8 (ucast (ucast (drop_bit 8 v) :: byte)) = (v :: 16 word)"
  by (rule bit_word_eqI) (auto simp: bit_simps)

lemma word16_at_put_same:
  "Suc k < length buf \<Longrightarrow> word16_at (put_word16 buf k v) k = v"
  by (simp add: word16_at_def put_word16_def word16_bytes)

lemma word16_at_put_other:
  "k' \<noteq> k \<Longrightarrow> k' \<noteq> Suc k \<Longrightarrow> Suc k' \<noteq> k \<Longrightarrow>
   word16_at (put_word16 buf k v) k' = word16_at buf k'"
  by (simp add: word16_at_def put_word16_def)

lemma length_put_word16 [simp]: "length (put_word16 buf k v) = length buf"
  by (simp add: put_word16_def)

lemma length_set_command [simp]: "length (set_command buf tag) = length buf"
  by (simp add: set_command_def)

lemma waitForReadyRead_frame:
  "sent (snd (waitForReadyRead p)) = sent p \<and> isOpen (snd (waitForReadyRead p)) = isOpen p"
  by (simp add: waitForReadyRead_def split: list.split rx_event.split)

lemma port_read_frame:
  "sent (snd (snd (port_read p m))) = sent p \<and> isOpen (snd (snd (port_read p m))) = isOpen p"
  by (simp add: port_read_def)

subsection \<open>The request frames\<close>

lemma trackRequest_sel:
  "cmdBufIdx (trackRequest tag s) = cmdBufIdx s"
  "pending (serialPort (trackRequest tag s)) = pending (serialPort s)"
  "inbuf (serialPort (trackRequest tag s)) = inbuf (serialPort s)"
  "failed (serialPort (trackRequest tag s)) = failed (serialPort s)"
  "isOpen (serialPort (trackRequest tag s)) = isOpen (serialPort s)"
  "sent (serialPort (trackRequest tag s))
     = sent (serialPort s) @ [take 10 (cmdBuf (trackRequest tag s))]"
  "trackLen (trackRequest tag s) = trackLen s"
  "trackBuf (trackRequest tag s) = trackBuf s"
  "trkBufIdx (trackRequest tag s) = trkBufIdx s"
  by (simp_all add: trackRequest_def Let_def port_write_def CMDBUF_SIZE_def)

lemma statRequest_sel:
  "cmdBufIdx (statRequest s) = 0"
  "pending (serialPort (statRequest s)) = pending (serialPort s)"
  "inbuf (serialPort (statRequest s)) = inbuf (serialPort s)"
  "failed (serialPort (statRequest s)) = failed (serialPort s)"
  by (simp_all add: statRequest_def Let_def port_write_def)

lemma trackRequest_fields:
  assumes "length (cmdBuf s) = 10" "length tag = 4"
  shows "command (cmdBuf (trackRequest tag s)) = tag"
    and "param1 (cmdBuf (trackRequest tag s)) = trackParam1 s"
    and "param2 (cmdBuf (trackRequest tag s)) = trackLen s"
    and "length (cmdBuf (trackRequest tag s)) = 10"
proof -
  show "param1 (cmdBuf (trackRequest tag s)) = trackParam1 s"
    using assms
    by (simp add: trackRequest_def Let_def param1_def set_checksum_def set_param2_def
                  set_param1_def word16_at_put_other word16_at_put_same)
  show "param2 (cmdBuf (trackRequest tag s)) = trackLen s"
    using assms
    by (simp add: trackRequest_def Let_def param2_def set_checksum_def set_param2_def
                  set_param1_def word16_at_put_other word16_at_put_same)
  show "length (cmdBuf (trackRequest tag s)) = 10"
    using assms
    by (simp add: trackRequest_def Let_def set_checksum_def set_param2_def set_param1_def)
  show "command (cmdBuf (trackRequest tag s)) = tag"
    using assms
    by (auto simp: trackRequest_def Let_def command_def set_checksum_def set_param2_def
                   set_param1_def put_word16_def set_command_def list_eq_iff_nth_eq
                   nth_list_update less_Suc_eq numeral_eq_Suc)
qed

lemma trackParam1_eq: "trackParam1 s = trackNum s OR push_bit 12 (ucast (driveNum s))"
  unfolding trackParam1_def
  by (rule bit_word_eqI) (auto simp: bit_simps)

lemma take_bit_12_track:
  "uint (t :: 16 word) < 2 ^ 12 \<Longrightarrow> take_bit 12 t = t"
  by (simp add: take_bit_eq_mask mask_eq_iff)

lemma track_bit_bound:
  assumes "uint (t :: 16 word) < 2 ^ 12" "bit t n"
  shows "n < 12"
proof -
  have "bit (take_bit 12 t) n" using assms by (simp add: take_bit_12_track)
  then show ?thesis by (simp add: bit_take_bit_iff)
qed

lemma drive_bit_bound:
  assumes "uint (d :: byte) < 2 ^ 4" "bit d n"
  shows "n < 4"
proof -
  have "take_bit 4 d = d" using assms(1) by (simp add: take_bit_eq_mask mask_eq_iff)
  then have "bit (take_bit 4 d) n" using assms(2) by simp
  then show ?thesis by (simp add: bit_take_bit_iff)
qed

lemma trackParam1_track:
  "uint (trackNum s) < 2 ^ 12 \<Longrightarrow> take_bit 12 (trackParam1 s) = trackNum s"
  by (simp add: trackParam1_eq take_bit_12_track take_bit_or take_bit_push_bit)

lemma trackParam1_drive:
  assumes "uint (trackNum s) < 2 ^ 12" "uint (driveNum s) < 2 ^ 4"
  shows "drop_bit 12 (trackParam1 s) = ucast (driveNum s)"
  unfolding trackParam1_eq
  by (rule bit_word_eqI)
     (auto simp: bit_simps dest: track_bit_bound [OF assms(1)] drive_bit_bound [OF assms(2)])


subsection \<open>The wait for a response\<close>

lemma cmdRead_silent:
  assumes "pending (serialPort s) = []" "inbuf (serialPort s) = []" "\<not> failed (serialPort s)"
    and "0 \<le> cmdBufIdx s" "cmdBufIdx s < 10"
  shows "cmdRead s = s"
proof -
  have p: "(serialPort s)\<lparr>inbuf := []\<rparr> = serialPort s"
    using assms(2) by simp
  show ?thesis
    using assms
    by (simp add: cmdRead_def waitForReadyRead_def port_read_def store_at_Nil to_qint16_id p)
qed

lemma cmdWait_silent:
  "pending (serialPort s) = [] \<Longrightarrow> inbuf (serialPort s) = [] \<Longrightarrow> \<not> failed (serialPort s) \<Longrightarrow>
   0 \<le> cmdBufIdx s \<Longrightarrow> cmdBufIdx s < 10 \<Longrightarrow> cmdWait fuel s = None"
  by (induction fuel) (simp_all add: cmdRead_silent CMDBUF_SIZE_def)

lemma statCmd_silent:
  "isOpen (serialPort s) \<Longrightarrow> pending (serialPort s) = [] \<Longrightarrow> inbuf (serialPort s) = [] \<Longrightarrow>
   \<not> failed (serialPort s) \<Longrightarrow> statCmd fuel s = None"
  by (simp add: statCmd_def cmdWait_silent statRequest_sel)

lemma writCmd_silent:
  "isOpen (serialPort s) \<Longrightarrow> \<not> driveInvalid s \<Longrightarrow> pending (serialPort s) = [] \<Longrightarrow>
   inbuf (serialPort s) = [] \<Longrightarrow> \<not> failed (serialPort s) \<Longrightarrow> writCmd fuel s = None"
  by (simp add: writCmd_def cmdWait_silent trackRequest_sel)

subsection \<open>The bulk receive loop\<close>

lemma readLoop_continue:
  "trkBufIdx (snd (readStep s)) < uint (trackLen (snd (readStep s))) + 2 \<and> fst (readStep s) \<Longrightarrow>
   readLoop s = readLoop (snd (readStep s))"
  by (rule trans [OF readLoop.simps if_P])

lemma readLoop_stop:
  "\<not> (trkBufIdx (snd (readStep s)) < uint (trackLen (snd (readStep s))) + 2 \<and> fst (readStep s)) \<Longrightarrow>
   readLoop s = snd (readStep s)"
  by (rule trans [OF readLoop.simps if_not_P])

lemma readStep_frame:
  "\<exists>p tb i. snd (readStep s) = s\<lparr>serialPort := p, trackBuf := tb, trkBufIdx := i\<rparr> \<and>
     sent p = sent (serialPort s) \<and> isOpen p = isOpen (serialPort s)"
proof -
  obtain b p1 where w: "waitForReadyRead (serialPort s) = (b, p1)"
    by (cases "waitForReadyRead (serialPort s)")
  obtain n bs p2 where r: "port_read p1 (TRACKBUF_LEN_CRC - trkBufIdx s) = (n, bs, p2)"
    by (cases "port_read p1 (TRACKBUF_LEN_CRC - trkBufIdx s)") auto
  have "sent p2 = sent (serialPort s) \<and> isOpen p2 = isOpen (serialPort s)"
    using waitForReadyRead_frame [of "serialPort s"]
          port_read_frame [of p1 "TRACKBUF_LEN_CRC - trkBufIdx s"] w r
    by simp
  then show ?thesis
    by (simp add: readStep_def w r) blast
qed

lemma readLoop_frame:
  "\<exists>p tb i. readLoop s = s\<lparr>serialPort := p, trackBuf := tb, trkBufIdx := i\<rparr> \<and>
     sent p = sent (serialPort s) \<and> isOpen p = isOpen (serialPort s)"
proof (induction s rule: readLoop.induct)
  case (1 s)
  obtain p tb i
    where st: "snd (readStep s) = s\<lparr>serialPort := p, trackBuf := tb, trkBufIdx := i\<rparr>"
      and fr: "sent p = sent (serialPort s)" "isOpen p = isOpen (serialPort s)"
    using readStep_frame [of s] by blast
  show ?case
  proof (cases "trkBufIdx (snd (readStep s)) < uint (trackLen (snd (readStep s))) + 2
                  \<and> fst (readStep s)")
    case True
    then have eq: "readLoop s = readLoop (snd (readStep s))"
      by (rule readLoop_continue)
    from 1 [OF True] obtain p' tb' i' where
      "readLoop (snd (readStep s))
         = (snd (readStep s))\<lparr>serialPort := p', trackBuf := tb', trkBufIdx := i'\<rparr>"
      "sent p' = sent (serialPort (snd (readStep s)))"
      "isOpen p' = isOpen (serialPort (snd (readStep s)))"
      by blast
    then have "readLoop s = s\<lparr>serialPort := p', trackBuf := tb', trkBufIdx := i'\<rparr> \<and>
               sent p' = sent (serialPort s) \<and> isOpen p' = isOpen (serialPort s)"
      using eq st fr by simp
    then show ?thesis by blast
  next
    case False
    then have "readLoop s = snd (readStep s)"
      by (rule readLoop_stop)
    then show ?thesis using st fr by auto
  qed
qed

subsection \<open>A response that arrives in one piece\<close>

lemma cmdRead_frame:
  "\<exists>p b i. cmdRead s = s\<lparr>serialPort := p, cmdBuf := b, cmdBufIdx := i\<rparr> \<and>
     sent p = sent (serialPort s) \<and> isOpen p = isOpen (serialPort s)"
proof -
  obtain b p1 where w: "waitForReadyRead (serialPort s) = (b, p1)"
    by (cases "waitForReadyRead (serialPort s)")
  obtain n bs p2 where r: "port_read p1 (CMDBUF_SIZE - cmdBufIdx s) = (n, bs, p2)"
    by (cases "port_read p1 (CMDBUF_SIZE - cmdBufIdx s)") auto
  have "sent p2 = sent (serialPort s) \<and> isOpen p2 = isOpen (serialPort s)"
    using waitForReadyRead_frame [of "serialPort s"]
          port_read_frame [of p1 "CMDBUF_SIZE - cmdBufIdx s"] w r
    by simp
  then show ?thesis
    by (simp add: cmdRead_def w r) blast
qed

lemma cmdWait_frame:
  "cmdWait fuel s = Some s' \<Longrightarrow>
   \<exists>p b i. s' = s\<lparr>serialPort := p, cmdBuf := b, cmdBufIdx := i\<rparr> \<and>
     sent p = sent (serialPort s) \<and> isOpen p = isOpen (serialPort s)"
proof (induction fuel arbitrary: s)
  case 0
  then show ?case by simp
next
  case (Suc fuel)
  obtain p b i
    where st: "cmdRead s = s\<lparr>serialPort := p, cmdBuf := b, cmdBufIdx := i\<rparr>"
      and fr: "sent p = sent (serialPort s)" "isOpen p = isOpen (serialPort s)"
    using cmdRead_frame [of s] by blast
  show ?case
  proof (cases "cmdBufIdx (cmdRead s) < CMDBUF_SIZE \<and> cmdBufIdx (cmdRead s) \<noteq> - 1")
    case True
    with Suc.prems have "cmdWait fuel (cmdRead s) = Some s'" by (simp add: Let_def)
    from Suc.IH [OF this] obtain p' b' i' where
      "s' = (cmdRead s)\<lparr>serialPort := p', cmdBuf := b', cmdBufIdx := i'\<rparr>"
      "sent p' = sent (serialPort (cmdRead s))" "isOpen p' = isOpen (serialPort (cmdRead s))"
      by blast
    then have "s' = s\<lparr>serialPort := p', cmdBuf := b', cmdBufIdx := i'\<rparr> \<and>
               sent p' = sent (serialPort s) \<and> isOpen p' = isOpen (serialPort s)"
      using st fr by simp
    then show ?thesis by blast
  next
    case False
    with Suc.prems have "s' = cmdRead s" by (simp add: Let_def)
    then show ?thesis using st fr by auto
  qed
qed

lemma cmdWait_exit: "cmdWait fuel s = Some s' \<Longrightarrow> cmdBufIdx s' = - 1 \<or> CMDBUF_SIZE \<le> cmdBufIdx s'"
proof (induction fuel arbitrary: s)
  case 0
  then show ?case by simp
next
  case (Suc fuel)
  show ?case
  proof (cases "cmdBufIdx (cmdRead s) < CMDBUF_SIZE \<and> cmdBufIdx (cmdRead s) \<noteq> - 1")
    case True
    with Suc.prems have "cmdWait fuel (cmdRead s) = Some s'" by (simp add: Let_def)
    then show ?thesis by (rule Suc.IH)
  next
    case False
    with Suc.prems have "s' = cmdRead s" by (simp add: Let_def)
    with False show ?thesis by auto
  qed
qed

lemma cmdRead_full_chunk:
  assumes "pending (serialPort s) = Chunk bs # es" "inbuf (serialPort s) = []"
    and "\<not> failed (serialPort s)" "cmdBufIdx s = 0" "length bs = 10" "length (cmdBuf s) = 10"
  shows "cmdRead s = s\<lparr>serialPort := (serialPort s)\<lparr>pending := es\<rparr>, cmdBuf := bs, cmdBufIdx := 10\<rparr>"
  using assms
  by (simp add: cmdRead_def waitForReadyRead_def port_read_def store_at_def to_qint16_id
                CMDBUF_SIZE_def)

lemma cmdWait_full_chunk:
  assumes "pending (serialPort s) = Chunk bs # es" "inbuf (serialPort s) = []"
    and "\<not> failed (serialPort s)" "cmdBufIdx s = 0" "length bs = 10" "length (cmdBuf s) = 10"
  shows "cmdWait (Suc fuel) s
           = Some (s\<lparr>serialPort := (serialPort s)\<lparr>pending := es\<rparr>, cmdBuf := bs, cmdBufIdx := 10\<rparr>)"
  by (simp add: cmdRead_full_chunk [OF assms] CMDBUF_SIZE_def)


lemma statRequest_frame:
  "statAutoCheck (statRequest s) = statAutoCheck s"
  "messageLabel (statRequest s) = messageLabel s"
  "isOpen (serialPort (statRequest s)) = isOpen (serialPort s)"
  "length (cmdBuf (statRequest s)) = length (cmdBuf s)"
  by (simp_all add: statRequest_def Let_def port_write_def set_checksum_def set_param2_def
                    set_param1_def)

lemma statCmd_full_chunk:
  assumes "isOpen (serialPort s)" "pending (serialPort s) = Chunk bs # es"
    and "inbuf (serialPort s) = []" "\<not> failed (serialPort s)"
    and "length bs = 10" "length (cmdBuf s) = 10"
  shows "map_option messageLabel (statCmd (Suc fuel) s)
           = Some (if command bs \<noteq> tag_STAT then StatTagMismatch (command bs)
                   else if \<not> statAutoCheck s then StatReceived (rdata bs)
                   else messageLabel s)"
    and "map_option cmdBuf (statCmd (Suc fuel) s) = Some bs"
proof -
  let ?s1 = "statRequest s"
  let ?s2 = "?s1\<lparr>serialPort := (serialPort ?s1)\<lparr>pending := es\<rparr>, cmdBuf := bs, cmdBufIdx := 10\<rparr>"
  have w: "cmdWait (Suc fuel) ?s1 = Some ?s2"
    using assms by (intro cmdWait_full_chunk) (simp_all add: statRequest_sel statRequest_frame)
  have c: "statCmd (Suc fuel) s = Some (statResponse ?s2)"
    using assms(1) w by (simp add: statCmd_def del: cmdWait.simps)
  show "map_option messageLabel (statCmd (Suc fuel) s)
           = Some (if command bs \<noteq> tag_STAT then StatTagMismatch (command bs)
                   else if \<not> statAutoCheck s then StatReceived (rdata bs)
                   else messageLabel s)"
    by (simp add: c statResponse_def statRequest_frame)
  show "map_option cmdBuf (statCmd (Suc fuel) s) = Some bs"
    by (simp add: c statResponse_def)
qed

lemma writData_sel:
  "pending (serialPort (writData s)) = pending (serialPort s)"
  "inbuf (serialPort (writData s)) = inbuf (serialPort s)"
  "failed (serialPort (writData s)) = failed (serialPort s)"
  "isOpen (serialPort (writData s)) = isOpen (serialPort s)"
  "sent (serialPort (writData s))
     = sent (serialPort s) @ [take (unat (trackLen s) + 2) (trackBuf (writData s))]"
  "cmdBuf (writData s) = cmdBuf s"
  "length (trackBuf (writData s)) = length (trackBuf s)"
  by (simp_all add: writData_def Let_def port_write_def)

lemma trackRequest_length:
  "length (cmdBuf (trackRequest tag s)) = length (cmdBuf s)"
  by (simp add: trackRequest_def Let_def set_checksum_def set_param2_def set_param1_def)

lemma trackRequest_sent_lengths:
  "length (cmdBuf s) = 10 \<Longrightarrow>
   map length (sent (serialPort (trackRequest tag s))) = map length (sent (serialPort s)) @ [10]"
  by (simp add: trackRequest_sel trackRequest_length)

lemma writCmd_first_chunk:
  assumes "isOpen (serialPort s)" "\<not> driveInvalid s" "pending (serialPort s) = Chunk bs # es"
    and "inbuf (serialPort s) = []" "\<not> failed (serialPort s)"
    and "length bs = 10" "length (cmdBuf s) = 10"
  shows "writCmd (Suc fuel) s
           = writResponse (Suc fuel)
               ((trackRequest tag_WRIT s)
                  \<lparr>cmdBufIdx := 0,
                   serialPort := (serialPort (trackRequest tag_WRIT s))\<lparr>pending := es\<rparr>,
                   cmdBuf := bs, cmdBufIdx := 10\<rparr>)"
proof -
  let ?s1 = "(trackRequest tag_WRIT s)\<lparr>cmdBufIdx := 0\<rparr>"
  have len: "length (cmdBuf (trackRequest tag_WRIT s)) = 10"
    using assms(7) by (simp add: trackRequest_def Let_def set_checksum_def set_param2_def set_param1_def)
  have w: "cmdWait (Suc fuel) ?s1
             = Some (?s1\<lparr>serialPort := (serialPort ?s1)\<lparr>pending := es\<rparr>, cmdBuf := bs, cmdBufIdx := 10\<rparr>)"
    using assms len by (intro cmdWait_full_chunk) (simp_all add: trackRequest_sel)
  show ?thesis
    using assms(1,2) w by (simp add: writCmd_def del: cmdWait.simps)
qed

lemma writResponse_granted_chunk:
  assumes "cmdBufIdx s = 10" "command (cmdBuf s) = tag_WRIT" "rcode (cmdBuf s) = STAT_OK"
    and "pending (serialPort s) = Chunk bs # es"
    and "inbuf (serialPort s) = []" "\<not> failed (serialPort s)"
    and "length bs = 10" "length (cmdBuf s) = 10"
  shows "map_option messageLabel (writResponse (Suc fuel) s)
           = Some (if command bs \<noteq> tag_WSTA then WstaTagMismatch (command bs)
                   else WstaReceived (wstaRcodeText (rcode bs)))"
    and "map_option (\<lambda>s'. map length (sent (serialPort s'))) (writResponse (Suc fuel) s)
           = Some (map length (sent (serialPort s))
                    @ [min (length (trackBuf s)) (unat (trackLen s) + 2)])"
proof -
  let ?s1 = "(writData s)\<lparr>cmdBufIdx := 0\<rparr>"
  let ?s2 = "?s1\<lparr>serialPort := (serialPort ?s1)\<lparr>pending := es\<rparr>, cmdBuf := bs, cmdBufIdx := 10\<rparr>"
  have w: "cmdWait (Suc fuel) ?s1 = Some ?s2"
    using assms by (intro cmdWait_full_chunk) (simp_all add: writData_sel)
  have c: "writResponse (Suc fuel) s = Some (wstaResponse ?s2)"
    using assms(1,2,3) w by (simp add: writResponse_def del: cmdWait.simps)
  show "map_option messageLabel (writResponse (Suc fuel) s)
           = Some (if command bs \<noteq> tag_WSTA then WstaTagMismatch (command bs)
                   else WstaReceived (wstaRcodeText (rcode bs)))"
    by (simp add: c wstaResponse_def)
  show "map_option (\<lambda>s'. map length (sent (serialPort s'))) (writResponse (Suc fuel) s)
           = Some (map length (sent (serialPort s))
                    @ [min (length (trackBuf s)) (unat (trackLen s) + 2)])"
    by (simp add: c wstaResponse_def writData_sel)
qed

subsection \<open>The bulk receive loop on a single chunk and on silence\<close>

lemma readStep_one_chunk:
  assumes "pending (serialPort s) = Chunk bs # es" "inbuf (serialPort s) = []" "\<not> failed (serialPort s)"
    and "trkBufIdx s = 0" "int (length bs) \<le> TRACKBUF_LEN_CRC"
  shows "fst (readStep s) = True"
    and "trkBufIdx (snd (readStep s)) = int (length bs)"
    and "trackLen (snd (readStep s)) = trackLen s"
    and "trackBuf (snd (readStep s)) = bs @ drop (length bs) (trackBuf s)"
    and "pending (serialPort (snd (readStep s))) = es"
    and "inbuf (serialPort (snd (readStep s))) = []"
    and "failed (serialPort (snd (readStep s))) = False"
  using assms
  by (simp_all add: readStep_def waitForReadyRead_def port_read_def store_at_def to_qint16_id fdc_consts)

lemma readStep_quiet:
  assumes "pending (serialPort s) = []" "inbuf (serialPort s) = []" "\<not> failed (serialPort s)"
    and "0 \<le> trkBufIdx s" "trkBufIdx s \<le> TRACKBUF_LEN_CRC"
  shows "fst (readStep s) = False" and "trkBufIdx (snd (readStep s)) = trkBufIdx s"
  using assms
  by (simp_all add: readStep_def waitForReadyRead_def port_read_def store_at_def to_qint16_id fdc_consts)

lemma readLoop_quiet:
  assumes "pending (serialPort s) = []" "inbuf (serialPort s) = []" "\<not> failed (serialPort s)"
    and "0 \<le> trkBufIdx s" "trkBufIdx s \<le> TRACKBUF_LEN_CRC"
  shows "trkBufIdx (readLoop s) = trkBufIdx s"
  using readStep_quiet [OF assms] by (simp add: readLoop_stop)

lemma readLoop_complete_chunk:
  assumes "pending (serialPort s) = Chunk bs # es" "inbuf (serialPort s) = []" "\<not> failed (serialPort s)"
    and "trkBufIdx s = 0" "int (length bs) \<le> TRACKBUF_LEN_CRC" "uint (trackLen s) + 2 \<le> int (length bs)"
  shows "trkBufIdx (readLoop s) = int (length bs)"
    and "trackLen (readLoop s) = trackLen s"
  using readStep_one_chunk [OF assms(1-5)] assms(6) by (simp_all add: readLoop_stop)

lemma readCmd_complete_chunk:
  assumes "isOpen (serialPort s)" "\<not> driveInvalid s"
    and "pending (serialPort s) = Chunk bs # es" "inbuf (serialPort s) = []" "\<not> failed (serialPort s)"
    and "int (length bs) = uint (trackLen s) + 2" "int (length bs) \<le> TRACKBUF_LEN_CRC"
  shows "messageLabel (readCmd s) = TrackReceived (trackLen s)"
proof -
  let ?s1 = "(trackRequest tag_READ s)\<lparr>trkBufIdx := 0\<rparr>"
  have a: "trkBufIdx (readLoop ?s1) = int (length bs)" "trackLen (readLoop ?s1) = trackLen s"
    using assms by (simp_all add: readLoop_complete_chunk [where bs = bs and es = es] trackRequest_sel)
  show ?thesis
    using assms(1,2,6) a by (simp add: readCmd_def Let_def)
qed

lemma readCmd_quiet:
  assumes "isOpen (serialPort s)" "\<not> driveInvalid s"
    and "pending (serialPort s) = []" "inbuf (serialPort s) = []" "\<not> failed (serialPort s)"
  shows "messageLabel (readCmd s) = TrackPartial 0 (uint (trackLen s) + 2)"
proof -
  let ?s1 = "(trackRequest tag_READ s)\<lparr>trkBufIdx := 0\<rparr>"
  obtain p tb i where fr: "readLoop ?s1 = ?s1\<lparr>serialPort := p, trackBuf := tb, trkBufIdx := i\<rparr>"
    using readLoop_frame [of ?s1] by blast
  have a: "trkBufIdx (readLoop ?s1) = 0"
    using assms by (simp add: readLoop_quiet trackRequest_sel fdc_consts)
  have b: "trackLen (readLoop ?s1) = trackLen s"
    by (simp add: fr trackRequest_sel)
  have "0 \<le> uint (trackLen s)" by simp
  then have c: "(0::int) \<noteq> uint (trackLen s) + 2" by linarith
  show ?thesis
    using assms(1,2) a b c by (simp add: readCmd_def Let_def)
qed

subsection \<open>What \<open>writCmd\<close> sends\<close>

lemma wstaResponse_frame:
  "serialPort (wstaResponse s) = serialPort s" "trackBuf (wstaResponse s) = trackBuf s"
  "driveTrackState (wstaResponse s) = driveTrackState s"
  by (simp_all add: wstaResponse_def driveTrackState_def)

lemma writResponse_sent:
  assumes "writResponse fuel s1 = Some s'"
  shows "sent (serialPort s') = sent (serialPort s1) \<or>
         (cmdBufIdx s1 \<noteq> - 1 \<and> command (cmdBuf s1) = tag_WRIT \<and> rcode (cmdBuf s1) = STAT_OK \<and>
          sent (serialPort s')
            = sent (serialPort s1) @ [take (unat (trackLen s1) + 2) (trackBuf s')])"
proof (cases "cmdBufIdx s1 \<noteq> - 1 \<and> command (cmdBuf s1) = tag_WRIT \<and> rcode (cmdBuf s1) = STAT_OK")
  case True
  with assms obtain s2 where w: "cmdWait fuel ((writData s1)\<lparr>cmdBufIdx := 0\<rparr>) = Some s2"
    and s': "s' = wstaResponse s2"
    by (auto simp: writResponse_def)
  from cmdWait_frame [OF w] obtain p b i where
    "s2 = (writData s1)\<lparr>cmdBufIdx := 0, serialPort := p, cmdBuf := b, cmdBufIdx := i\<rparr>"
    "sent p = sent (serialPort (writData s1))"
    by auto
  then have "sent (serialPort s') = sent (serialPort s1) @ [take (unat (trackLen s1) + 2) (trackBuf s')]"
    by (simp add: s' wstaResponse_frame writData_sel)
  with True show ?thesis by simp
next
  case False
  with assms have "sent (serialPort s') = sent (serialPort s1)"
    by (auto simp: writResponse_def split: if_splits)
  then show ?thesis by simp
qed

lemma writCmd_unfold:
  "isOpen (serialPort s) \<Longrightarrow> \<not> driveInvalid s \<Longrightarrow>
   cmdWait fuel ((trackRequest tag_WRIT s)\<lparr>cmdBufIdx := 0\<rparr>) = Some s1 \<Longrightarrow>
   writCmd fuel s = writResponse fuel s1"
  by (simp add: writCmd_def)

lemma writCmd_Some:
  "isOpen (serialPort s) \<Longrightarrow> \<not> driveInvalid s \<Longrightarrow> writCmd fuel s = Some s' \<Longrightarrow>
   \<exists>s1. cmdWait fuel ((trackRequest tag_WRIT s)\<lparr>cmdBufIdx := 0\<rparr>) = Some s1 \<and>
        writResponse fuel s1 = Some s'"
  by (simp add: writCmd_def split: option.splits)

lemma cmdWait_request_sent:
  assumes "cmdWait fuel ((trackRequest tag s)\<lparr>cmdBufIdx := 0\<rparr>) = Some s1"
  shows "sent (serialPort s1) = sent (serialPort s) @ [take 10 (cmdBuf (trackRequest tag s))]"
proof -
  from cmdWait_frame [OF assms] obtain p b i where
    "s1 = (trackRequest tag s)\<lparr>cmdBufIdx := 0, serialPort := p, cmdBuf := b, cmdBufIdx := i\<rparr>"
    "sent p = sent (serialPort (trackRequest tag s))"
    by auto
  then show ?thesis by (simp add: trackRequest_sel)
qed

subsection \<open>The frames of READ and WRIT\<close>

lemma readCmd_sent:
  assumes "isOpen (serialPort s)" "\<not> driveInvalid s"
  shows "sent (serialPort (readCmd s))
           = sent (serialPort s) @ [take 10 (cmdBuf (trackRequest tag_READ s))]"
proof -
  let ?q = "(trackRequest tag_READ s)\<lparr>trkBufIdx := 0\<rparr>"
  obtain p tb i where fr: "readLoop ?q = ?q\<lparr>serialPort := p, trackBuf := tb, trkBufIdx := i\<rparr>"
    and sp: "sent p = sent (serialPort ?q)"
    using readLoop_frame [of ?q] by blast
  have "sent (serialPort (readLoop ?q)) = sent (serialPort (trackRequest tag_READ s))"
    by (simp add: fr sp)
  then show ?thesis
    using assms by (simp add: readCmd_def Let_def trackRequest_sel)
qed

lemma writCmd_sent:
  assumes "isOpen (serialPort s)" "\<not> driveInvalid s" "writCmd fuel s = Some s'"
  shows "\<exists>rest. sent (serialPort s')
           = sent (serialPort s) @ take 10 (cmdBuf (trackRequest tag_WRIT s)) # rest"
proof -
  from writCmd_Some [OF assms] obtain s1
    where w: "cmdWait fuel ((trackRequest tag_WRIT s)\<lparr>cmdBufIdx := 0\<rparr>) = Some s1"
      and r: "writResponse fuel s1 = Some s'"
    by blast
  have "sent (serialPort s1) = sent (serialPort s) @ [take 10 (cmdBuf (trackRequest tag_WRIT s))]"
    using w by (rule cmdWait_request_sent)
  with writResponse_sent [OF r] show ?thesis by auto
qed

lemma drive_valid:
  "0 \<le> uint (driveNum s) \<and> uint (driveNum s) < int MAX_DRIVE \<Longrightarrow> \<not> driveInvalid s"
  by (simp add: driveInvalid_def)

lemma track_frame:
  assumes "uint (driveNum s) < int MAX_DRIVE" "uint (trackNum s) < 2 ^ 12"
    and "length (cmdBuf s) = 10" "length tag = 4"
  shows "length (take 10 (cmdBuf (trackRequest tag s))) = 10 \<and>
         command (take 10 (cmdBuf (trackRequest tag s))) = tag \<and>
         param1 (take 10 (cmdBuf (trackRequest tag s)))
           = trackNum s OR push_bit 12 (ucast (driveNum s)) \<and>
         take_bit 12 (param1 (take 10 (cmdBuf (trackRequest tag s)))) = trackNum s \<and>
         drop_bit 12 (param1 (take 10 (cmdBuf (trackRequest tag s)))) = ucast (driveNum s) \<and>
         param2 (take 10 (cmdBuf (trackRequest tag s))) = trackLen s"
proof -
  have l: "length (cmdBuf (trackRequest tag s)) = 10"
    using assms(3) by (simp add: trackRequest_length)
  then have t: "take 10 (cmdBuf (trackRequest tag s)) = cmdBuf (trackRequest tag s)" by simp
  have d: "uint (driveNum s) < 2 ^ 4" using assms(1) by (simp add: MAX_DRIVE_def)
  show ?thesis
    unfolding t
    using trackRequest_fields [OF assms(3,4)] trackParam1_track [OF assms(2)]
          trackParam1_drive [OF assms(2) d]
    by (simp add: trackParam1_eq)
qed

lemma writCmd_refused_chunk:
  assumes "isOpen (serialPort s)" "\<not> driveInvalid s" "pending (serialPort s) = Chunk bs # es"
    and "inbuf (serialPort s) = []" "\<not> failed (serialPort s)"
    and "length bs = 10" "length (cmdBuf s) = 10"
    and "command bs = tag_WRIT" "rcode bs \<noteq> STAT_OK"
  shows "\<exists>s'. writCmd (Suc fuel) s = Some s' \<and>
              messageLabel s' = WritRefused (writRcodeText (rcode bs))"
  by (simp add: writCmd_first_chunk [OF assms(1-7)] writResponse_def assms(8,9))

subsection \<open>What STAT and READ change\<close>

lemma statResponse_frame:
  "driveTrackState (statResponse s) = driveTrackState s"
  "cmdBuf (statResponse s) = cmdBuf s" "cmdBufIdx (statResponse s) = cmdBufIdx s"
  by (simp_all add: statResponse_def driveTrackState_def)

lemma statRequest_driveTrackState:
  "driveTrackState (statRequest s) = driveTrackState s"
  by (simp add: statRequest_def Let_def driveTrackState_def)

lemma statCmd_Some:
  "isOpen (serialPort s) \<Longrightarrow> statCmd fuel s = Some s' \<Longrightarrow>
   \<exists>s2. cmdWait fuel (statRequest s) = Some s2 \<and> s' = statResponse s2"
  by (auto simp: statCmd_def)

lemma cmdWait_driveTrackState:
  "cmdWait fuel s = Some s' \<Longrightarrow> driveTrackState s' = driveTrackState s"
  using cmdWait_frame [of fuel s s'] by (auto simp: driveTrackState_def)

lemma cmdWait_keeps:
  "cmdWait fuel s = Some s' \<Longrightarrow>
   statAutoCheck s' = statAutoCheck s \<and> messageLabel s' = messageLabel s"
  using cmdWait_frame [of fuel s s'] by auto

lemma statCmd_driveTrackState:
  assumes "statCmd fuel s = Some s'"
  shows "driveTrackState s' = driveTrackState s"
proof (cases "isOpen (serialPort s)")
  case True
  from statCmd_Some [OF True assms] obtain s2
    where "cmdWait fuel (statRequest s) = Some s2" "s' = statResponse s2" by blast
  then show ?thesis
    by (simp add: statResponse_frame cmdWait_driveTrackState statRequest_driveTrackState)
next
  case False
  with assms show ?thesis by (auto simp: statCmd_def driveTrackState_def)
qed

lemma statCmd_message:
  assumes "statCmd fuel s = Some s'" "isOpen (serialPort s)"
    and "cmdBufIdx s' \<noteq> - 1" "command (cmdBuf s') = tag_STAT"
  shows "messageLabel s' = (if statAutoCheck s then messageLabel s
                            else StatReceived (rdata (cmdBuf s')))"
proof -
  from statCmd_Some [OF assms(2,1)] obtain s2
    where w: "cmdWait fuel (statRequest s) = Some s2" and s': "s' = statResponse s2" by blast
  have k: "statAutoCheck s2 = statAutoCheck s" "messageLabel s2 = messageLabel s"
    using cmdWait_keeps [OF w] by (simp_all add: statRequest_frame)
  have b: "cmdBufIdx s2 \<noteq> - 1" "command (cmdBuf s2) = tag_STAT"
    using assms(3,4) by (simp_all add: s' statResponse_frame)
  show ?thesis
    using b k by (simp add: s' statResponse_def)
qed

lemma trackRequest_driveTrackState:
  "driveTrackState (trackRequest tag s) = driveTrackState s"
  by (simp add: trackRequest_def Let_def driveTrackState_def)

lemma readCmd_driveTrackState: "driveTrackState (readCmd s) = driveTrackState s"
proof -
  let ?q = "(trackRequest tag_READ s)\<lparr>trkBufIdx := 0\<rparr>"
  obtain p tb i where fr: "readLoop ?q = ?q\<lparr>serialPort := p, trackBuf := tb, trkBufIdx := i\<rparr>"
    using readLoop_frame [of ?q] by blast
  have "driveTrackState (readLoop ?q) = driveTrackState (trackRequest tag_READ s)"
    by (simp add: fr driveTrackState_def)
  then have "driveTrackState (readLoop ?q) = driveTrackState s"
    by (simp add: trackRequest_driveTrackState)
  then show ?thesis
    by (simp add: readCmd_def Let_def driveTrackState_def)
qed

lemma statCmd_full_chunk_state:
  assumes "isOpen (serialPort s)" "pending (serialPort s) = Chunk bs # es"
    and "inbuf (serialPort s) = []" "\<not> failed (serialPort s)"
    and "length bs = 10" "length (cmdBuf s) = 10"
  shows "map_option driveTrackState (statCmd (Suc fuel) s) = Some (driveTrackState s)"
proof -
  from statCmd_full_chunk(2) [OF assms, of fuel]
  obtain s' where s': "statCmd (Suc fuel) s = Some s'" by blast
  then show ?thesis by (simp add: statCmd_driveTrackState [OF s'])
qed

lemma statCmd_full_chunk_idx:
  assumes "isOpen (serialPort s)" "pending (serialPort s) = Chunk bs # es"
    and "inbuf (serialPort s) = []" "\<not> failed (serialPort s)"
    and "length bs = 10" "length (cmdBuf s) = 10"
  shows "map_option cmdBufIdx (statCmd (Suc fuel) s) = Some 10"
proof -
  let ?q = "statRequest s"
  have w: "cmdWait (Suc fuel) ?q
             = Some (?q\<lparr>serialPort := (serialPort ?q)\<lparr>pending := es\<rparr>, cmdBuf := bs, cmdBufIdx := 10\<rparr>)"
    using assms by (intro cmdWait_full_chunk) (simp_all add: statRequest_sel statRequest_frame)
  show ?thesis
    using assms(1) w by (simp add: statCmd_def statResponse_frame del: cmdWait.simps)
qed

lemma replicate_4: "replicate 4 x = [x, x, x, x]"
  by (simp add: numeral_eq_Suc)

subsection \<open>The bounds of the track buffer\<close>

lemma readStep_in_bounds:
  assumes "0 \<le> trkBufIdx s \<and> trkBufIdx s \<le> TRACKBUF_LEN_CRC"
    and "int (length (trackBuf s)) = TRACKBUF_LEN_CRC"
    and "\<not> failed (serialPort s)" "IOError \<notin> set (pending (serialPort s))"
  shows "(0 \<le> trkBufIdx (snd (readStep s)) \<and> trkBufIdx (snd (readStep s)) \<le> TRACKBUF_LEN_CRC) \<and>
         int (length (trackBuf (snd (readStep s)))) = TRACKBUF_LEN_CRC \<and>
         \<not> failed (serialPort (snd (readStep s))) \<and>
         IOError \<notin> set (pending (serialPort (snd (readStep s))))"
  using assms
  by (auto simp: readStep_def waitForReadyRead_def port_read_def store_at_def
                 to_qint16_id fdc_consts Let_def
           split: list.splits rx_event.splits)

lemma readLoop_in_bounds:
  "(0 \<le> trkBufIdx s \<and> trkBufIdx s \<le> TRACKBUF_LEN_CRC) \<and>
   int (length (trackBuf s)) = TRACKBUF_LEN_CRC \<and>
   \<not> failed (serialPort s) \<and> IOError \<notin> set (pending (serialPort s)) \<Longrightarrow>
   (0 \<le> trkBufIdx (readLoop s) \<and> trkBufIdx (readLoop s) \<le> TRACKBUF_LEN_CRC) \<and>
   int (length (trackBuf (readLoop s))) = TRACKBUF_LEN_CRC \<and>
   \<not> failed (serialPort (readLoop s)) \<and> IOError \<notin> set (pending (serialPort (readLoop s)))"
proof (induction s rule: readLoop.induct)
  case (1 s)
  have st: "(0 \<le> trkBufIdx (snd (readStep s)) \<and> trkBufIdx (snd (readStep s)) \<le> TRACKBUF_LEN_CRC) \<and>
         int (length (trackBuf (snd (readStep s)))) = TRACKBUF_LEN_CRC \<and>
         \<not> failed (serialPort (snd (readStep s))) \<and>
         IOError \<notin> set (pending (serialPort (snd (readStep s))))"
    using 1(2) by (intro readStep_in_bounds) simp_all
  show ?case
  proof (cases "trkBufIdx (snd (readStep s)) < uint (trackLen (snd (readStep s))) + 2
                  \<and> fst (readStep s)")
    case True
    then have "readLoop s = readLoop (snd (readStep s))"
      by (rule readLoop_continue)
    with 1(1) [OF True st] show ?thesis by simp
  next
    case False
    then have "readLoop s = snd (readStep s)"
      by (rule readLoop_stop)
    with st show ?thesis by simp
  qed
qed

lemma readCmd_longer_chunk:
  assumes "isOpen (serialPort s)" "\<not> driveInvalid s"
    and "pending (serialPort s) = Chunk bs # es" "inbuf (serialPort s) = []" "\<not> failed (serialPort s)"
    and "uint (trackLen s) + 2 < int (length bs)" "int (length bs) \<le> TRACKBUF_LEN_CRC"
  shows "messageLabel (readCmd s) = TrackPartial (int (length bs)) (uint (trackLen s) + 2)"
proof -
  let ?q = "(trackRequest tag_READ s)\<lparr>trkBufIdx := 0\<rparr>"
  have a: "trkBufIdx (readLoop ?q) = int (length bs)" "trackLen (readLoop ?q) = trackLen s"
    using assms by (simp_all add: readLoop_complete_chunk [where bs = bs and es = es] trackRequest_sel)
  show ?thesis
    using assms(1,2,6) a by (simp add: readCmd_def Let_def)
qed

lemma diskSlot_minidisk:
  "trackLen (diskSlot 1 s) = 2192" "trackMax (diskSlot 1 s) = 35"
  "serialPort (diskSlot 1 s) = serialPort s" "trackBuf (diskSlot 1 s) = trackBuf s"
  "trkBufIdx (diskSlot 1 s) = trkBufIdx s" "driveNum (diskSlot 1 s) = driveNum s"
  by (simp_all add: diskSlot_def diskBox_itemData_def fdc_consts Let_def)

subsection \<open>The frame of STAT\<close>










section \<open>The claims\<close>

text \<open>
  C3 (the code departs from the claim). A peer that stays silent: the port is open, no
  byte has arrived and none will. The wait for the ten-byte response of STAT, and of
  WRIT, is still running after any number of rounds, since its condition looks only at
  \<open>cmdBufIdx\<close> and never at the result of \<open>waitForReadyRead\<close>. The bulk loop of READ
  does look at it, and READ returns at once with zero of 4386 bytes.
\<close>

theorem response_wait_never_returns_when_peer_silent:
  "statCmd fuel (FDCDialog \<lparr>isOpen = True, pending = [], inbuf = [], failed = False, sent = []\<rparr>)
     = None \<and>
   writCmd fuel ((FDCDialog \<lparr>isOpen = True, pending = [], inbuf = [], failed = False, sent = []\<rparr>)
                   \<lparr>driveNum := 0\<rparr>)
     = None \<and>
   messageLabel
     (readCmd ((FDCDialog \<lparr>isOpen = True, pending = [], inbuf = [], failed = False, sent = []\<rparr>)
                 \<lparr>driveNum := 0\<rparr>))
     = TrackPartial 0 4386"
  by (simp add: statCmd_silent writCmd_silent readCmd_quiet FDCDialog_def driveInvalid_def
                fdc_consts)




text \<open>
  C5. When the drive number is outside \<open>[0, MAX_DRIVE)\<close>, neither READ nor WRIT touches
  the serial port: nothing is written and nothing is read. On an open port both return
  at once, and the only change to the state is the alert "Invalid drive number". (On a
  port that is not open the alert is "Serial port not open"; that test comes first.)
\<close>

theorem invalid_drive_rejected_without_transmitting:
  assumes "\<not> (0 \<le> uint (driveNum s) \<and> uint (driveNum s) < int MAX_DRIVE)"
  shows "serialPort (readCmd s) = serialPort s \<and>
         map_option serialPort (writCmd fuel s) = Some (serialPort s) \<and>
         (isOpen (serialPort s) \<longrightarrow>
            readCmd s = s\<lparr>alerts := alerts s @ [InvalidDriveNumber]\<rparr> \<and>
            writCmd fuel s = Some (s\<lparr>alerts := alerts s @ [InvalidDriveNumber]\<rparr>))"
  using assms by (simp add: readCmd_def writCmd_def driveInvalid_def)

theorem invalid_drive_rejected_without_transmitting_witness:
  "serialPort (readCmd (FDCDialog \<lparr>isOpen = True, pending = [], inbuf = [], failed = False, sent = []\<rparr>))
     = \<lparr>isOpen = True, pending = [], inbuf = [], failed = False, sent = []\<rparr> \<and>
   alerts (readCmd (FDCDialog \<lparr>isOpen = True, pending = [], inbuf = [], failed = False, sent = []\<rparr>))
     = [InvalidDriveNumber] \<and>
   map_option alerts
     (writCmd 0 (FDCDialog \<lparr>isOpen = True, pending = [], inbuf = [], failed = False, sent = []\<rparr>))
     = Some [InvalidDriveNumber] \<and>
   driveNum (FDCDialog \<lparr>isOpen = True, pending = [], inbuf = [], failed = False, sent = []\<rparr>)
     = 0xFF"
proof -
  have h: "\<not> (0 \<le> uint (driveNum (FDCDialog \<lparr>isOpen = True, pending = [], inbuf = [],
                                             failed = False, sent = []\<rparr>))
             \<and> uint (driveNum (FDCDialog \<lparr>isOpen = True, pending = [], inbuf = [],
                                             failed = False, sent = []\<rparr>)) < int MAX_DRIVE)"
    by (simp add: FDCDialog_def MAX_DRIVE_def)
  show ?thesis
    using invalid_drive_rejected_without_transmitting [OF h, of 0]
    by (simp add: FDCDialog_def)
qed


text \<open>
  C1 (the code departs from the claim). No received frame has its checksum recomputed.
  A STAT response whose checksum field is 0 where the first eight bytes sum to 0x0141 is
  shown as a valid response with bitmap 5. A WRIT response with response code OK and a
  wrong checksum field (0xFFFF, the bytes sum to 0x0146) is taken as the permission to
  send: the 4386-byte data block goes out after the 10-byte request; and the WSTA frame
  that follows, again with a wrong checksum field, is reported as the final status OK.
\<close>

theorem received_frames_are_accepted_with_a_wrong_checksum:
  "map_option messageLabel
     (statCmd (Suc 0)
        (FDCDialog \<lparr>isOpen = True,
                    pending = [Chunk [0x53, 0x54, 0x41, 0x54, 0, 0, 5, 0, 0, 0]],
                    inbuf = [], failed = False, sent = []\<rparr>))
     = Some (StatReceived 5) \<and>
   calcChecksum [0x53, 0x54, 0x41, 0x54, 0, 0, 5, 0, 0, 0] COMMAND_LENGTH = 0x0141 \<and>
   checksum_field [0x53, 0x54, 0x41, 0x54, 0, 0, 5, 0, 0, 0] = 0 \<and>
   map_option messageLabel
     (writCmd (Suc 0)
        ((FDCDialog \<lparr>isOpen = True,
                    pending = [Chunk [0x57, 0x52, 0x49, 0x54, 0, 0, 0, 0, 0xFF, 0xFF],
                               Chunk [0x57, 0x53, 0x54, 0x41, 0, 0, 0, 0, 0xFF, 0xFF]],
                    inbuf = [], failed = False, sent = []\<rparr>)\<lparr>driveNum := 0\<rparr>))
     = Some (WstaReceived OK) \<and>
   map_option (\<lambda>s'. map length (sent (serialPort s')))
     (writCmd (Suc 0)
        ((FDCDialog \<lparr>isOpen = True,
                    pending = [Chunk [0x57, 0x52, 0x49, 0x54, 0, 0, 0, 0, 0xFF, 0xFF],
                               Chunk [0x57, 0x53, 0x54, 0x41, 0, 0, 0, 0, 0xFF, 0xFF]],
                    inbuf = [], failed = False, sent = []\<rparr>)\<lparr>driveNum := 0\<rparr>))
     = Some [10, 4386] \<and>
   calcChecksum [0x57, 0x52, 0x49, 0x54, 0, 0, 0, 0, 0xFF, 0xFF] COMMAND_LENGTH = 0x0146 \<and>
   calcChecksum [0x57, 0x53, 0x54, 0x41, 0, 0, 0, 0, 0xFF, 0xFF] COMMAND_LENGTH = 0x013F \<and>
   checksum_field [0x57, 0x52, 0x49, 0x54, 0, 0, 0, 0, 0xFF, 0xFF] = 0xFFFF \<and>
   checksum_field [0x57, 0x53, 0x54, 0x41, 0, 0, 0, 0, 0xFF, 0xFF] = 0xFFFF"
proof -
  let ?r0 = "[0x53, 0x54, 0x41, 0x54, 0, 0, 5, 0, 0, 0] :: byte list"
  let ?r1 = "[0x57, 0x52, 0x49, 0x54, 0, 0, 0, 0, 0xFF, 0xFF] :: byte list"
  let ?r2 = "[0x57, 0x53, 0x54, 0x41, 0, 0, 0, 0, 0xFF, 0xFF] :: byte list"
  let ?s = "(FDCDialog \<lparr>isOpen = True, pending = [Chunk ?r1, Chunk ?r2],
                        inbuf = [], failed = False, sent = []\<rparr>)\<lparr>driveNum := 0\<rparr>"
  let ?s1 = "(trackRequest tag_WRIT ?s)
                  \<lparr>cmdBufIdx := 0,
                   serialPort := (serialPort (trackRequest tag_WRIT ?s))\<lparr>pending := [Chunk ?r2]\<rparr>,
                   cmdBuf := ?r1, cmdBufIdx := 10\<rparr>"
  have 0: "map_option messageLabel
             (statCmd (Suc 0)
                (FDCDialog \<lparr>isOpen = True, pending = [Chunk ?r0],
                            inbuf = [], failed = False, sent = []\<rparr>))
             = Some (StatReceived 5)"
    by (subst statCmd_full_chunk(1) [where bs = ?r0 and es = "[]"])
       (simp_all add: FDCDialog_def field_defs tag_defs)
  have 1: "writCmd (Suc 0) ?s = writResponse (Suc 0) ?s1"
    by (rule writCmd_first_chunk [where bs = ?r1 and es = "[Chunk ?r2]"])
       (simp_all add: FDCDialog_def driveInvalid_def MAX_DRIVE_def)
  have 2: "map_option messageLabel (writResponse (Suc 0) ?s1) = Some (WstaReceived OK)"
    by (subst writResponse_granted_chunk(1) [where bs = ?r2 and es = "[]"])
       (simp_all add: trackRequest_sel field_defs tag_defs STAT_OK_def wstaRcodeText_def
                      FDCDialog_def)
  have 3: "map_option (\<lambda>s'. map length (sent (serialPort s'))) (writResponse (Suc 0) ?s1)
             = Some [10, 4386]"
    by (subst writResponse_granted_chunk(2) [where bs = ?r2 and es = "[]"])
       (simp_all add: trackRequest_length trackRequest_sel field_defs tag_defs
                      FDCDialog_def fdc_consts)
  have 4: "calcChecksum ?r0 COMMAND_LENGTH = 0x0141 \<and> checksum_field ?r0 = 0 \<and>
           calcChecksum ?r1 COMMAND_LENGTH = 0x0146 \<and> calcChecksum ?r2 COMMAND_LENGTH = 0x013F \<and>
           checksum_field ?r1 = 0xFFFF \<and> checksum_field ?r2 = 0xFFFF"
    by (simp add: calcChecksum_sum_list COMMAND_LENGTH_def field_defs)
  show ?thesis
    unfolding 1 using 0 2 3 4 by simp
qed

text \<open>
  C2 (the code departs from the claim). With the 8-inch geometry the peer sends 4384
  zero bytes and then the trailer. With the trailer 01 00 the checksum is wrong (the
  data sum to 0, the trailer says 1); with 00 00 it is right. \<open>readCmd\<close> ends with the same
  message in both cases, "Received 4384 byte track": it binds the checksum it computes
  and the address of the trailer to two locals and never compares them, so whether the
  checksum matched is not reported.
\<close>

theorem read_reports_a_track_whatever_its_checksum:
  "messageLabel
     (readCmd ((FDCDialog \<lparr>isOpen = True, pending = [Chunk (replicate 4384 0 @ [1, 0])],
                           inbuf = [], failed = False, sent = []\<rparr>)\<lparr>driveNum := 0\<rparr>))
     = TrackReceived 4384 \<and>
   messageLabel
     (readCmd ((FDCDialog \<lparr>isOpen = True, pending = [Chunk (replicate 4384 0 @ [0, 0])],
                           inbuf = [], failed = False, sent = []\<rparr>)\<lparr>driveNum := 0\<rparr>))
     = TrackReceived 4384 \<and>
   calcChecksum (replicate 4384 0 @ [1, 0]) 4384 = 0 \<and>
   word16_at (replicate 4384 0 @ [1, 0]) 4384 = 1"
proof -
  have a: "messageLabel
     (readCmd ((FDCDialog \<lparr>isOpen = True, pending = [Chunk (replicate 4384 0 @ [1, 0])],
                           inbuf = [], failed = False, sent = []\<rparr>)\<lparr>driveNum := 0\<rparr>))
     = TrackReceived 4384"
    by (simp add: readCmd_complete_chunk [where bs = "replicate 4384 0 @ [1, 0]" and es = "[]"]
                  FDCDialog_def driveInvalid_def fdc_consts)
  have b: "messageLabel
     (readCmd ((FDCDialog \<lparr>isOpen = True, pending = [Chunk (replicate 4384 0 @ [0, 0])],
                           inbuf = [], failed = False, sent = []\<rparr>)\<lparr>driveNum := 0\<rparr>))
     = TrackReceived 4384"
    by (simp add: readCmd_complete_chunk [where bs = "replicate 4384 0 @ [0, 0]" and es = "[]"]
                  FDCDialog_def driveInvalid_def fdc_consts)
  have c: "calcChecksum (replicate 4384 0 @ [1, 0]) 4384 = 0 \<and>
           word16_at (replicate 4384 0 @ [1, 0]) 4384 = 1"
    by (simp add: calcChecksum_sum_list word16_at_def nth_append sum_list_replicate)
  from a b c show ?thesis by simp
qed


text \<open>
  C6. Let the wait for the WRIT response end in state \<open>s1\<close>. If the tag received is
  not "WRIT", \<open>writCmd\<close> returns \<open>s1\<close> with only the message changed, to the tag
  mismatch; if the tag is "WRIT" and the response code is not OK, it returns \<open>s1\<close> with
  only the message changed, to NOT READY, CHECKSUM ERROR or WRITE ERROR for the codes 1, 2
  and 3 and to UNKNOWN for any other. In both cases the serial port is as the wait left
  it: no data block has been written and no WSTA frame has been waited for. Whenever
  \<open>writCmd\<close> returns with more written than the request frame, the response had the tag
  "WRIT" and the code OK, and what was written after the request is the one block of
  \<open>trackLen + 2\<close> bytes of the track buffer.
\<close>

theorem writ_data_sent_only_after_writ_ok:
  assumes "isOpen (serialPort s)"
    and "0 \<le> uint (driveNum s) \<and> uint (driveNum s) < int MAX_DRIVE"
    and "cmdWait fuel ((trackRequest tag_WRIT s)\<lparr>cmdBufIdx := 0\<rparr>) = Some s1"
  shows
    "(cmdBufIdx s1 \<noteq> - 1 \<and> command (cmdBuf s1) \<noteq> tag_WRIT \<longrightarrow>
        writCmd fuel s = Some (s1\<lparr>messageLabel := WritTagMismatch (command (cmdBuf s1))\<rparr>)) \<and>
     (cmdBufIdx s1 \<noteq> - 1 \<and> command (cmdBuf s1) = tag_WRIT \<and> rcode (cmdBuf s1) \<noteq> STAT_OK \<longrightarrow>
        writCmd fuel s
          = Some (s1\<lparr>messageLabel :=
                      WritRefused (if rcode (cmdBuf s1) = STAT_NOT_READY then NOT_READY
                                   else if rcode (cmdBuf s1) = STAT_CHECKSUM_ERR then CHECKSUM_ERROR
                                   else if rcode (cmdBuf s1) = STAT_WRITE_ERR then WRITE_ERROR
                                   else UNKNOWN)\<rparr>)) \<and>
     (\<forall>s'. writCmd fuel s = Some s' \<and> sent (serialPort s') \<noteq> sent (serialPort s1) \<longrightarrow>
        cmdBufIdx s1 \<noteq> - 1 \<and> command (cmdBuf s1) = tag_WRIT \<and> rcode (cmdBuf s1) = STAT_OK \<and>
        sent (serialPort s')
          = sent (serialPort s1) @ [take (unat (trackLen s1) + 2) (trackBuf s')]) \<and>
     sent (serialPort s1) = sent (serialPort s) @ [take 10 (cmdBuf (trackRequest tag_WRIT s))]"
proof -
  have d: "\<not> driveInvalid s" using assms(2) by (simp add: driveInvalid_def)
  have u: "writCmd fuel s = writResponse fuel s1"
    using assms(1) d assms(3) by (rule writCmd_unfold)
  have 1: "cmdBufIdx s1 \<noteq> - 1 \<and> command (cmdBuf s1) \<noteq> tag_WRIT \<longrightarrow>
        writCmd fuel s = Some (s1\<lparr>messageLabel := WritTagMismatch (command (cmdBuf s1))\<rparr>)"
    by (simp add: u writResponse_def)
  have 2: "cmdBufIdx s1 \<noteq> - 1 \<and> command (cmdBuf s1) = tag_WRIT \<and> rcode (cmdBuf s1) \<noteq> STAT_OK \<longrightarrow>
        writCmd fuel s
          = Some (s1\<lparr>messageLabel :=
                      WritRefused (if rcode (cmdBuf s1) = STAT_NOT_READY then NOT_READY
                                   else if rcode (cmdBuf s1) = STAT_CHECKSUM_ERR then CHECKSUM_ERROR
                                   else if rcode (cmdBuf s1) = STAT_WRITE_ERR then WRITE_ERROR
                                   else UNKNOWN)\<rparr>)"
    by (simp add: u writResponse_def writRcodeText_def)
  have 3: "\<forall>s'. writCmd fuel s = Some s' \<and> sent (serialPort s') \<noteq> sent (serialPort s1) \<longrightarrow>
        cmdBufIdx s1 \<noteq> - 1 \<and> command (cmdBuf s1) = tag_WRIT \<and> rcode (cmdBuf s1) = STAT_OK \<and>
        sent (serialPort s')
          = sent (serialPort s1) @ [take (unat (trackLen s1) + 2) (trackBuf s')]"
    using writResponse_sent [of fuel s1] by (auto simp: u)
  have 4: "sent (serialPort s1) = sent (serialPort s) @ [take 10 (cmdBuf (trackRequest tag_WRIT s))]"
    using assms(3) by (rule cmdWait_request_sent)
  from 1 2 3 4 show ?thesis by blast
qed


theorem writ_data_sent_only_after_writ_ok_witness:
  "map_option messageLabel
     (writCmd (Suc 0)
        ((FDCDialog \<lparr>isOpen = True,
                     pending = [Chunk [0x57, 0x52, 0x49, 0x54, 1, 0, 0, 0, 0x47, 0x01]],
                     inbuf = [], failed = False, sent = []\<rparr>)\<lparr>driveNum := 0\<rparr>))
     = Some (WritRefused NOT_READY) \<and>
   map_option (\<lambda>s'. map length (sent (serialPort s')))
     (writCmd (Suc 0)
        ((FDCDialog \<lparr>isOpen = True,
                     pending = [Chunk [0x57, 0x52, 0x49, 0x54, 1, 0, 0, 0, 0x47, 0x01]],
                     inbuf = [], failed = False, sent = []\<rparr>)\<lparr>driveNum := 0\<rparr>))
     = Some [10] \<and>
   map_option (\<lambda>s'. pending (serialPort s'))
     (writCmd (Suc 0)
        ((FDCDialog \<lparr>isOpen = True,
                     pending = [Chunk [0x57, 0x52, 0x49, 0x54, 1, 0, 0, 0, 0x47, 0x01]],
                     inbuf = [], failed = False, sent = []\<rparr>)\<lparr>driveNum := 0\<rparr>))
     = Some []"
proof -
  let ?r = "[0x57, 0x52, 0x49, 0x54, 1, 0, 0, 0, 0x47, 0x01] :: byte list"
  let ?s = "(FDCDialog \<lparr>isOpen = True, pending = [Chunk ?r],
                        inbuf = [], failed = False, sent = []\<rparr>)\<lparr>driveNum := 0\<rparr>"
  let ?req = "(trackRequest tag_WRIT ?s)\<lparr>cmdBufIdx := 0\<rparr>"
  let ?rsp = "?req\<lparr>serialPort := (serialPort ?req)\<lparr>pending := []\<rparr>, cmdBuf := ?r, cmdBufIdx := 10\<rparr>"
  have h1: "isOpen (serialPort ?s)" by (simp add: FDCDialog_def)
  have h2: "0 \<le> uint (driveNum ?s) \<and> uint (driveNum ?s) < int MAX_DRIVE"
    by (simp add: MAX_DRIVE_def)
  have h3: "cmdWait (Suc 0) ?req = Some ?rsp"
    by (rule cmdWait_full_chunk)
       (simp_all add: trackRequest_sel trackRequest_length FDCDialog_def)
  have a: "cmdBufIdx ?rsp \<noteq> - 1 \<and> command (cmdBuf ?rsp) = tag_WRIT \<and> rcode (cmdBuf ?rsp) \<noteq> STAT_OK"
    by (simp add: field_defs tag_defs fdc_consts)
  have c: "rcode (cmdBuf ?rsp) = STAT_NOT_READY"
    by (simp add: field_defs fdc_consts)
  from writ_data_sent_only_after_writ_ok [OF h1 h2 h3] a
  have "writCmd (Suc 0) ?s
          = Some (?rsp\<lparr>messageLabel :=
                      WritRefused (if rcode (cmdBuf ?rsp) = STAT_NOT_READY then NOT_READY
                                   else if rcode (cmdBuf ?rsp) = STAT_CHECKSUM_ERR then CHECKSUM_ERROR
                                   else if rcode (cmdBuf ?rsp) = STAT_WRITE_ERR then WRITE_ERROR
                                   else UNKNOWN)\<rparr>)"
    by blast
  then have "writCmd (Suc 0) ?s = Some (?rsp\<lparr>messageLabel := WritRefused NOT_READY\<rparr>)"
    by (simp only: c if_True simp_thms)
  then show ?thesis
    by (simp add: trackRequest_sel trackRequest_length FDCDialog_def)
qed

text \<open>
  C7. On an open port, for a drive number in \<open>[0, MAX_DRIVE)\<close> and a track number below
  \<open>2 ^ 12\<close>, READ writes exactly one frame, and the first thing WRIT writes is one frame
  (it stays the first whatever follows once \<open>writCmd\<close> returns), of ten bytes, with
  the tag "READ" or "WRIT", with \<open>field1 = track | (drive << 12)\<close> (its low 12 bits are
  the track number, its bits 12 to 15 the drive number) and with \<open>field2\<close> the track
  length of the state. For drive 3 and track 1234 the witness gives
  \<open>field1 = (3 << 12) | 1234 = 0x34D2\<close>.
\<close>

theorem track_request_carries_track_drive_and_length:
  assumes "isOpen (serialPort s)"
    and "0 \<le> uint (driveNum s) \<and> uint (driveNum s) < int MAX_DRIVE"
    and "uint (trackNum s) < 2 ^ 12"
    and "length (cmdBuf s) = 10"
  shows
    "(\<exists>frame. sent (serialPort (readCmd s)) = sent (serialPort s) @ [frame] \<and>
        length frame = 10 \<and> command frame = tag_READ \<and>
        param1 frame = trackNum s OR push_bit 12 (ucast (driveNum s)) \<and>
        take_bit 12 (param1 frame) = trackNum s \<and>
        drop_bit 12 (param1 frame) = ucast (driveNum s) \<and>
        param2 frame = trackLen s) \<and>
     (\<exists>frame. sent (serialPort (trackRequest tag_WRIT s)) = sent (serialPort s) @ [frame] \<and>
        (\<forall>s'. writCmd fuel s = Some s' \<longrightarrow>
           (\<exists>rest. sent (serialPort s') = sent (serialPort s) @ frame # rest)) \<and>
        length frame = 10 \<and> command frame = tag_WRIT \<and>
        param1 frame = trackNum s OR push_bit 12 (ucast (driveNum s)) \<and>
        take_bit 12 (param1 frame) = trackNum s \<and>
        drop_bit 12 (param1 frame) = ucast (driveNum s) \<and>
        param2 frame = trackLen s)"
proof -
  have d: "\<not> driveInvalid s" using assms(2) by (rule drive_valid)
  have m: "uint (driveNum s) < int MAX_DRIVE" using assms(2) by simp
  have lr: "length tag_READ = 4" by (simp add: tag_READ_def)
  have lw: "length tag_WRIT = 4" by (simp add: tag_WRIT_def)
  have r: "\<exists>frame. sent (serialPort (readCmd s)) = sent (serialPort s) @ [frame] \<and>
        length frame = 10 \<and> command frame = tag_READ \<and>
        param1 frame = trackNum s OR push_bit 12 (ucast (driveNum s)) \<and>
        take_bit 12 (param1 frame) = trackNum s \<and>
        drop_bit 12 (param1 frame) = ucast (driveNum s) \<and>
        param2 frame = trackLen s"
    using readCmd_sent [OF assms(1) d] track_frame [OF m assms(3) assms(4) lr]
    by blast
  have w: "\<exists>frame. sent (serialPort (trackRequest tag_WRIT s)) = sent (serialPort s) @ [frame] \<and>
        (\<forall>s'. writCmd fuel s = Some s' \<longrightarrow>
           (\<exists>rest. sent (serialPort s') = sent (serialPort s) @ frame # rest)) \<and>
        length frame = 10 \<and> command frame = tag_WRIT \<and>
        param1 frame = trackNum s OR push_bit 12 (ucast (driveNum s)) \<and>
        take_bit 12 (param1 frame) = trackNum s \<and>
        drop_bit 12 (param1 frame) = ucast (driveNum s) \<and>
        param2 frame = trackLen s"
    using writCmd_sent [OF assms(1) d, of fuel] trackRequest_sel(6) [of tag_WRIT s]
          track_frame [OF m assms(3) assms(4) lw]
    by blast
  from r w show ?thesis by (rule conjI)
qed

theorem track_request_carries_track_drive_and_length_witness:
  "map param1
     (sent (serialPort
        (readCmd ((FDCDialog \<lparr>isOpen = True,
                     pending = [Chunk [0x57, 0x52, 0x49, 0x54, 1, 0, 0, 0, 0x47, 0x01]],
                     inbuf = [], failed = False, sent = []\<rparr>)
                  \<lparr>driveNum := 3, trackNum := 1234\<rparr>))))
     = [push_bit 12 3 OR 1234] \<and>
   map param2
     (sent (serialPort
        (readCmd ((FDCDialog \<lparr>isOpen = True,
                     pending = [Chunk [0x57, 0x52, 0x49, 0x54, 1, 0, 0, 0, 0x47, 0x01]],
                     inbuf = [], failed = False, sent = []\<rparr>)
                  \<lparr>driveNum := 3, trackNum := 1234\<rparr>))))
     = [4384] \<and>
   map_option (\<lambda>s'. map param1 (take 1 (sent (serialPort s'))))
     (writCmd (Suc 0)
        ((FDCDialog \<lparr>isOpen = True,
                     pending = [Chunk [0x57, 0x52, 0x49, 0x54, 1, 0, 0, 0, 0x47, 0x01]],
                     inbuf = [], failed = False, sent = []\<rparr>)
         \<lparr>driveNum := 3, trackNum := 1234\<rparr>))
     = Some [0x34D2] \<and>
   push_bit 12 3 OR 1234 = (0x34D2 :: 16 word)"
proof -
  let ?r = "[0x57, 0x52, 0x49, 0x54, 1, 0, 0, 0, 0x47, 0x01] :: byte list"
  let ?q = "(FDCDialog \<lparr>isOpen = True, pending = [Chunk ?r],
                        inbuf = [], failed = False, sent = []\<rparr>)
              \<lparr>driveNum := 3, trackNum := 1234\<rparr>"
  have h1: "isOpen (serialPort ?q)" by (simp add: FDCDialog_def)
  have h2: "0 \<le> uint (driveNum ?q) \<and> uint (driveNum ?q) < int MAX_DRIVE"
    by (simp add: MAX_DRIVE_def)
  have h3: "uint (trackNum ?q) < 2 ^ 12" by simp
  have h4: "length (cmdBuf ?q) = 10" by (simp add: FDCDialog_def)
  have v: "trackNum ?q OR push_bit 12 (ucast (driveNum ?q)) = (0x34D2 :: 16 word)"
          "trackLen ?q = 4384" "sent (serialPort ?q) = []"
    by (simp_all add: FDCDialog_def fdc_consts)
  from track_request_carries_track_drive_and_length [OF h1 h2 h3 h4, of "Suc 0"]
  obtain fr fw where
        r: "sent (serialPort (readCmd ?q)) = sent (serialPort ?q) @ [fr]"
           "param1 fr = trackNum ?q OR push_bit 12 (ucast (driveNum ?q))"
           "param2 fr = trackLen ?q"
    and w: "\<forall>s'. writCmd (Suc 0) ?q = Some s' \<longrightarrow>
              (\<exists>rest. sent (serialPort s') = sent (serialPort ?q) @ fw # rest)"
           "param1 fw = trackNum ?q OR push_bit 12 (ucast (driveNum ?q))"
    by blast
  have "\<exists>s'. writCmd (Suc 0) ?q = Some s' \<and>
             messageLabel s' = WritRefused (writRcodeText (rcode ?r))"
    by (rule writCmd_refused_chunk [where es = "[]"])
       (simp_all add: FDCDialog_def driveInvalid_def MAX_DRIVE_def field_defs tag_defs STAT_OK_def)
  then obtain s' where s': "writCmd (Suc 0) ?q = Some s'" by blast
  with w(1) obtain rest where "sent (serialPort s') = sent (serialPort ?q) @ fw # rest"
    by blast
  then have ww: "map param1 (take 1 (sent (serialPort s'))) = [0x34D2]"
    by (simp only: v w(2) append_Nil One_nat_def take_Suc_Cons take_0 list.map)
  have rr: "map param1 (sent (serialPort (readCmd ?q))) = [0x34D2]"
           "map param2 (sent (serialPort (readCmd ?q))) = [4384]"
    by (simp_all only: r v append_Nil list.map)
  have c: "push_bit 12 3 OR 1234 = (0x34D2 :: 16 word)" by simp
  show ?thesis
    unfolding s' using rr ww c by (simp only: option.map simp_thms)
qed

text \<open>
  C9 (as amended). Neither STAT nor READ changes the Drive/Track State (selected drive,
  head-load flags, track number, track length, number of tracks), whatever the peer
  answers. After a STAT exchange on an open port that received a frame with the tag
  "STAT", the bitmap in the response's field2 is shown in the message when automatic
  polling is off, and the message is left as it was when it is on; READ requests the
  current track number and leaves it as it is.
\<close>

theorem stat_and_read_leave_drive_track_state_unchanged:
  "(\<forall>s'. statCmd fuel s = Some s' \<longrightarrow> driveTrackState s' = driveTrackState s) \<and>
   (\<forall>s'. statCmd fuel s = Some s' \<and> isOpen (serialPort s) \<and> cmdBufIdx s' \<noteq> - 1 \<and>
         command (cmdBuf s') = tag_STAT \<longrightarrow>
         messageLabel s' = (if statAutoCheck s then messageLabel s
                            else StatReceived (rdata (cmdBuf s')))) \<and>
   driveTrackState (readCmd s) = driveTrackState s"
  using statCmd_driveTrackState [of fuel s] statCmd_message [of fuel s] 
        readCmd_driveTrackState [of s]
  by blast

theorem stat_and_read_leave_drive_track_state_unchanged_witness:
  "map_option driveTrackState
     (statCmd (Suc 0)
        ((FDCDialog \<lparr>isOpen = True,
                     pending = [Chunk [0x53, 0x54, 0x41, 0x54, 0, 0, 5, 0, 0x41, 0x01]],
                     inbuf = [], failed = False, sent = []\<rparr>)
         \<lparr>driveNum := 1, trackNum := 7\<rparr>))
     = Some (1, [0, 0, 0, 0], 7, 4384, 77) \<and>
   map_option messageLabel
     (statCmd (Suc 0)
        ((FDCDialog \<lparr>isOpen = True,
                     pending = [Chunk [0x53, 0x54, 0x41, 0x54, 0, 0, 5, 0, 0x41, 0x01]],
                     inbuf = [], failed = False, sent = []\<rparr>)
         \<lparr>driveNum := 1, trackNum := 7\<rparr>))
     = Some (StatReceived 5) \<and>
   driveTrackState
     (readCmd
        ((FDCDialog \<lparr>isOpen = True,
                     pending = [Chunk [0x53, 0x54, 0x41, 0x54, 0, 0, 5, 0, 0x41, 0x01]],
                     inbuf = [], failed = False, sent = []\<rparr>)
         \<lparr>driveNum := 1, trackNum := 7\<rparr>))
     = (1, [0, 0, 0, 0], 7, 4384, 77)"
proof -
  let ?r = "[0x53, 0x54, 0x41, 0x54, 0, 0, 5, 0, 0x41, 0x01] :: byte list"
  let ?q = "(FDCDialog \<lparr>isOpen = True, pending = [Chunk ?r],
                        inbuf = [], failed = False, sent = []\<rparr>)
              \<lparr>driveNum := 1, trackNum := 7\<rparr>"
  have o: "isOpen (serialPort ?q)" by (simp add: FDCDialog_def)
  have "map_option cmdBuf (statCmd (Suc 0) ?q) = Some ?r"
    by (rule statCmd_full_chunk(2) [where es = "[]"]) (simp_all add: FDCDialog_def)
  then obtain s' where s': "statCmd (Suc 0) ?q = Some s'" and b: "cmdBuf s' = ?r"
    by blast
  have "map_option cmdBufIdx (statCmd (Suc 0) ?q) = Some 10"
    by (rule statCmd_full_chunk_idx [where bs = ?r and es = "[]"]) (simp_all add: FDCDialog_def)
  then have i: "cmdBufIdx s' \<noteq> - 1"
    by (simp add: s')
  have t: "command (cmdBuf s') = tag_STAT" by (simp add: b field_defs tag_defs)
  have d: "driveTrackState ?q = (1, [0, 0, 0, 0], 7, 4384, 77)"
    by (simp add: driveTrackState_def FDCDialog_def fdc_consts replicate_4)
  have n: "\<not> statAutoCheck ?q" by (simp add: FDCDialog_def)
  have v: "rdata ?r = 5" by (simp add: field_defs)
  from stat_and_read_leave_drive_track_state_unchanged [of "Suc 0" ?q]
  have 1: "driveTrackState s' = driveTrackState ?q"
    and 2: "messageLabel s' = (if statAutoCheck ?q then messageLabel ?q
                               else StatReceived (rdata (cmdBuf s')))"
    and 3: "driveTrackState (readCmd ?q) = driveTrackState ?q"
    using s' o i t by blast+
  have m2: "messageLabel s' = StatReceived 5"
    using 2 n by (simp only: b v if_False)
  show ?thesis
    unfolding s' using 1 m2 3 d by (simp only: option.map simp_thms)
qed

text \<open>
  C9 as stated fails: with automatic polling on, a STAT exchange in which the peer
  reports the bitmap 5 and one in which it reports 0 end in the same Drive/Track State
  (the one before the exchange) and with the same, unchanged message. The bitmap is in
  nothing but the frame buffer \<open>cmdBuf\<close>, which the next request overwrites.
\<close>

theorem stat_bitmap_is_not_recorded_in_drive_track_state:
  "map_option driveTrackState
     (statCmd (Suc 0)
        ((FDCDialog \<lparr>isOpen = True,
                     pending = [Chunk [0x53, 0x54, 0x41, 0x54, 0, 0, 5, 0, 0x41, 0x01]],
                     inbuf = [], failed = False, sent = []\<rparr>)
         \<lparr>driveNum := 1, trackNum := 7, statAutoCheck := True\<rparr>))
     = Some (1, [0, 0, 0, 0], 7, 4384, 77) \<and>
   map_option driveTrackState
     (statCmd (Suc 0)
        ((FDCDialog \<lparr>isOpen = True,
                     pending = [Chunk [0x53, 0x54, 0x41, 0x54, 0, 0, 0, 0, 0x3C, 0x01]],
                     inbuf = [], failed = False, sent = []\<rparr>)
         \<lparr>driveNum := 1, trackNum := 7, statAutoCheck := True\<rparr>))
     = Some (1, [0, 0, 0, 0], 7, 4384, 77) \<and>
   map_option messageLabel
     (statCmd (Suc 0)
        ((FDCDialog \<lparr>isOpen = True,
                     pending = [Chunk [0x53, 0x54, 0x41, 0x54, 0, 0, 5, 0, 0x41, 0x01]],
                     inbuf = [], failed = False, sent = []\<rparr>)
         \<lparr>driveNum := 1, trackNum := 7, statAutoCheck := True\<rparr>))
     = Some NoMessage \<and>
   map_option messageLabel
     (statCmd (Suc 0)
        ((FDCDialog \<lparr>isOpen = True,
                     pending = [Chunk [0x53, 0x54, 0x41, 0x54, 0, 0, 0, 0, 0x3C, 0x01]],
                     inbuf = [], failed = False, sent = []\<rparr>)
         \<lparr>driveNum := 1, trackNum := 7, statAutoCheck := True\<rparr>))
     = Some NoMessage \<and>
   rdata [0x53, 0x54, 0x41, 0x54, 0, 0, 5, 0, 0x41, 0x01] = 5 \<and>
   rdata [0x53, 0x54, 0x41, 0x54, 0, 0, 0, 0, 0x3C, 0x01] = 0"
proof -
  let ?rA = "[0x53, 0x54, 0x41, 0x54, 0, 0, 5, 0, 0x41, 0x01] :: byte list"
  let ?rB = "[0x53, 0x54, 0x41, 0x54, 0, 0, 0, 0, 0x3C, 0x01] :: byte list"
  let ?A = "(FDCDialog \<lparr>isOpen = True, pending = [Chunk ?rA],
                        inbuf = [], failed = False, sent = []\<rparr>)
              \<lparr>driveNum := 1, trackNum := 7, statAutoCheck := True\<rparr>"
  let ?B = "(FDCDialog \<lparr>isOpen = True, pending = [Chunk ?rB],
                        inbuf = [], failed = False, sent = []\<rparr>)
              \<lparr>driveNum := 1, trackNum := 7, statAutoCheck := True\<rparr>"
  have a: "map_option driveTrackState (statCmd (Suc 0) ?A) = Some (1, [0, 0, 0, 0], 7, 4384, 77)"
    by (subst statCmd_full_chunk_state [where bs = ?rA and es = "[]"])
       (simp_all add: FDCDialog_def driveTrackState_def fdc_consts replicate_4)
  have b: "map_option driveTrackState (statCmd (Suc 0) ?B) = Some (1, [0, 0, 0, 0], 7, 4384, 77)"
    by (subst statCmd_full_chunk_state [where bs = ?rB and es = "[]"])
       (simp_all add: FDCDialog_def driveTrackState_def fdc_consts replicate_4)
  have c: "map_option messageLabel (statCmd (Suc 0) ?A) = Some NoMessage"
    by (subst statCmd_full_chunk(1) [where bs = ?rA and es = "[]"])
       (simp_all add: FDCDialog_def field_defs tag_defs)
  have d: "map_option messageLabel (statCmd (Suc 0) ?B) = Some NoMessage"
    by (subst statCmd_full_chunk(1) [where bs = ?rB and es = "[]"])
       (simp_all add: FDCDialog_def field_defs tag_defs)
  have e: "rdata ?rA = 5 \<and> rdata ?rB = 0" by (simp add: field_defs)
  from a b c d e show ?thesis by (simp only: simp_thms)
qed

text \<open>
  C10. In the model a read returns a count from 0 to the maximum asked for unless the
  port has failed; so the assumption is that the port has not failed and that no I/O
  error is pending. Then every round of the bulk loop keeps \<open>trkBufIdx\<close> within
  \<open>0 .. TRACKBUF_LEN_CRC\<close> and \<open>trackBuf\<close> at its \<open>TRACKBUF_LEN_CRC\<close> bytes (a store
  past the end would lengthen it) and keeps the assumption, so this holds throughout the
  loop, at its end and after \<open>readCmd\<close>, for any track length. The witness is the
  minidisk geometry with 3000 bytes arriving at once: the index ends at 3000, above
  \<open>trackLen + 2 = 2194\<close> and within 4386.
\<close>

theorem trkBufIdx_stays_within_trackBuf:
  assumes "0 \<le> trkBufIdx s \<and> trkBufIdx s \<le> TRACKBUF_LEN_CRC"
    and "int (length (trackBuf s)) = TRACKBUF_LEN_CRC"
    and "\<not> failed (serialPort s)" "IOError \<notin> set (pending (serialPort s))"
  shows
    "((0 \<le> trkBufIdx (snd (readStep s)) \<and> trkBufIdx (snd (readStep s)) \<le> TRACKBUF_LEN_CRC) \<and>
      int (length (trackBuf (snd (readStep s)))) = TRACKBUF_LEN_CRC \<and>
      \<not> failed (serialPort (snd (readStep s))) \<and>
      IOError \<notin> set (pending (serialPort (snd (readStep s))))) \<and>
     ((0 \<le> trkBufIdx (readLoop s) \<and> trkBufIdx (readLoop s) \<le> TRACKBUF_LEN_CRC) \<and>
      int (length (trackBuf (readLoop s))) = TRACKBUF_LEN_CRC) \<and>
     ((0 \<le> trkBufIdx (readCmd s) \<and> trkBufIdx (readCmd s) \<le> TRACKBUF_LEN_CRC) \<and>
      int (length (trackBuf (readCmd s))) = TRACKBUF_LEN_CRC)"
proof -
  let ?q = "(trackRequest tag_READ s)\<lparr>trkBufIdx := 0\<rparr>"
  have q: "(0 \<le> trkBufIdx ?q \<and> trkBufIdx ?q \<le> TRACKBUF_LEN_CRC) \<and>
           int (length (trackBuf ?q)) = TRACKBUF_LEN_CRC \<and>
           \<not> failed (serialPort ?q) \<and> IOError \<notin> set (pending (serialPort ?q))"
    using assms by (simp add: trackRequest_sel fdc_consts)
  have c: "(0 \<le> trkBufIdx (readCmd s) \<and> trkBufIdx (readCmd s) \<le> TRACKBUF_LEN_CRC) \<and>
           int (length (trackBuf (readCmd s))) = TRACKBUF_LEN_CRC"
    using readLoop_in_bounds [OF q] assms(1,2) by (simp add: readCmd_def Let_def)
  from readStep_in_bounds [OF assms] readLoop_in_bounds [of s] assms c
  show ?thesis by simp
qed

theorem trkBufIdx_stays_within_trackBuf_witness:
  "(0 \<le> trkBufIdx
          (readCmd ((diskSlot 1
               (FDCDialog \<lparr>isOpen = True, pending = [Chunk (replicate 3000 0xE5)],
                           inbuf = [], failed = False, sent = []\<rparr>))\<lparr>driveNum := 0\<rparr>)) \<and>
    trkBufIdx
          (readCmd ((diskSlot 1
               (FDCDialog \<lparr>isOpen = True, pending = [Chunk (replicate 3000 0xE5)],
                           inbuf = [], failed = False, sent = []\<rparr>))\<lparr>driveNum := 0\<rparr>))
       \<le> 4386) \<and>
   length (trackBuf
          (readCmd ((diskSlot 1
               (FDCDialog \<lparr>isOpen = True, pending = [Chunk (replicate 3000 0xE5)],
                           inbuf = [], failed = False, sent = []\<rparr>))\<lparr>driveNum := 0\<rparr>)))
       = 4386 \<and>
   messageLabel
          (readCmd ((diskSlot 1
               (FDCDialog \<lparr>isOpen = True, pending = [Chunk (replicate 3000 0xE5)],
                           inbuf = [], failed = False, sent = []\<rparr>))\<lparr>driveNum := 0\<rparr>))
       = TrackPartial 3000 2194"
proof -
  let ?q = "(diskSlot 1
               (FDCDialog \<lparr>isOpen = True, pending = [Chunk (replicate 3000 0xE5)],
                           inbuf = [], failed = False, sent = []\<rparr>))\<lparr>driveNum := 0\<rparr>"
  have h1: "0 \<le> trkBufIdx ?q \<and> trkBufIdx ?q \<le> TRACKBUF_LEN_CRC"
    by (simp add: diskSlot_minidisk FDCDialog_def fdc_consts)
  have h2: "int (length (trackBuf ?q)) = TRACKBUF_LEN_CRC"
    by (simp add: diskSlot_minidisk FDCDialog_def fdc_consts)
  have h3: "\<not> failed (serialPort ?q)"
    by (simp add: diskSlot_minidisk FDCDialog_def)
  have h4: "IOError \<notin> set (pending (serialPort ?q))"
    by (simp add: diskSlot_minidisk FDCDialog_def)
  have m: "messageLabel (readCmd ?q) = TrackPartial 3000 2194"
    by (subst readCmd_longer_chunk [where bs = "replicate 3000 0xE5" and es = "[]"])
       (simp_all add: diskSlot_minidisk FDCDialog_def driveInvalid_def fdc_consts)
  from trkBufIdx_stays_within_trackBuf [OF h1 h2 h3 h4]
  have "(0 \<le> trkBufIdx (readCmd ?q) \<and> trkBufIdx (readCmd ?q) \<le> TRACKBUF_LEN_CRC) \<and>
        int (length (trackBuf (readCmd ?q))) = TRACKBUF_LEN_CRC"
    by blast
  then have "(0 \<le> trkBufIdx (readCmd ?q) \<and> trkBufIdx (readCmd ?q) \<le> 4386) \<and>
        length (trackBuf (readCmd ?q)) = 4386"
    by (simp only: fdc_consts) simp
  with m show ?thesis by (simp only: simp_thms)
qed

end
